theory Spec2Isabelle
  imports Main "HOL-Library.Word" "HOL-Library.AList"
begin

section \<open>Strings: the Go library functions the parser calls\<close>

text \<open>
  A Go string is a sequence of bytes; it is modelled as \<open>string\<close> (a list of 8-bit
  characters). The functions of this section are the ones of the Go standard library
  that the repository calls (\<open>strings.TrimSpace\<close>, \<open>strings.Fields\<close>, \<open>strings.Cut\<close>,
  \<open>strconv.ParseUint\<close>, \<open>strconv.Atoi\<close>, \<open>bufio.ScanLines\<close>), written after their
  documented behaviour.

  White space is what \<open>unicode.IsSpace\<close> accepts: the six ASCII characters tab, line
  feed, vertical tab, form feed, carriage return and space, and the code points U+0085,
  U+00A0, U+1680, U+2000 to U+200A, U+2028, U+2029, U+202F, U+205F and U+3000, which
  appear in a string as their UTF-8 encodings. A byte that starts none of these
  encodings belongs to a rune that is not white space; the encodings start with a lead
  byte, which is never a continuation byte of another well-formed rune, and Go decodes
  an ill-formed byte as a one-byte rune that is not white space. So scanning byte by byte
  for these encodings finds the same white space as Go's rune-by-rune scan.
\<close>

definition asciiSpace :: "char \<Rightarrow> bool" where
  "asciiSpace c = (c = CHR 0x09 \<or> c = CHR 0x0A \<or> c = CHR 0x0B \<or> c = CHR 0x0C
                   \<or> c = CHR 0x0D \<or> c = CHR 0x20)"

definition unicodeSpace :: "string list" where
  "unicodeSpace =
     [[CHR 0xC2, CHR 0x85], [CHR 0xC2, CHR 0xA0], [CHR 0xE1, CHR 0x9A, CHR 0x80],
      [CHR 0xE2, CHR 0x80, CHR 0x80], [CHR 0xE2, CHR 0x80, CHR 0x81],
      [CHR 0xE2, CHR 0x80, CHR 0x82], [CHR 0xE2, CHR 0x80, CHR 0x83],
      [CHR 0xE2, CHR 0x80, CHR 0x84], [CHR 0xE2, CHR 0x80, CHR 0x85],
      [CHR 0xE2, CHR 0x80, CHR 0x86], [CHR 0xE2, CHR 0x80, CHR 0x87],
      [CHR 0xE2, CHR 0x80, CHR 0x88], [CHR 0xE2, CHR 0x80, CHR 0x89],
      [CHR 0xE2, CHR 0x80, CHR 0x8A], [CHR 0xE2, CHR 0x80, CHR 0xA8],
      [CHR 0xE2, CHR 0x80, CHR 0xA9], [CHR 0xE2, CHR 0x80, CHR 0xAF],
      [CHR 0xE2, CHR 0x81, CHR 0x9F], [CHR 0xE3, CHR 0x80, CHR 0x80]]"

text \<open>The number of bytes of the white-space rune at the head of a string, 0 when the
  string does not start with white space.\<close>

definition spaceWidth :: "string \<Rightarrow> nat" where
  "spaceWidth s =
     (case s of
        [] \<Rightarrow> 0
      | c # cs \<Rightarrow>
          if asciiSpace c then 1
          else (case find (\<lambda>p. take (length p) s = p) unicodeSpace of
                  None \<Rightarrow> 0
                | Some p \<Rightarrow> length p))"

text \<open>The same at the end of a string, read on the reversed string.\<close>

definition spaceWidthBack :: "string \<Rightarrow> nat" where
  "spaceWidthBack r =
     (case r of
        [] \<Rightarrow> 0
      | c # cs \<Rightarrow>
          if asciiSpace c then 1
          else (case find (\<lambda>p. take (length p) r = rev p) unicodeSpace of
                  None \<Rightarrow> 0
                | Some p \<Rightarrow> length p))"

fun trimLeft :: "string \<Rightarrow> string" where
  "trimLeft [] = []"
| "trimLeft (c # cs) =
     (if spaceWidth (c # cs) = 0 then c # cs
      else trimLeft (drop (spaceWidth (c # cs) - 1) cs))"

fun trimBack :: "string \<Rightarrow> string" where
  "trimBack [] = []"
| "trimBack (c # cs) =
     (if spaceWidthBack (c # cs) = 0 then c # cs
      else trimBack (drop (spaceWidthBack (c # cs) - 1) cs))"

text \<open>\<open>strings.TrimSpace\<close>: all leading and trailing white space removed.\<close>

definition TrimSpace :: "string \<Rightarrow> string" where
  "TrimSpace s = rev (trimBack (rev (trimLeft s)))"

text \<open>\<open>strings.Fields\<close>: the maximal runs of runes that are not white space. The first
  argument is the field being read (\<open>None\<close> between fields).\<close>

fun fieldsLoop :: "string option \<Rightarrow> string \<Rightarrow> string list" where
  "fieldsLoop cur [] = (case cur of None \<Rightarrow> [] | Some f \<Rightarrow> [f])"
| "fieldsLoop cur (c # cs) =
     (if 0 < spaceWidth (c # cs)
      then (case cur of
              None \<Rightarrow> fieldsLoop None (drop (spaceWidth (c # cs) - 1) cs)
            | Some f \<Rightarrow> f # fieldsLoop None (drop (spaceWidth (c # cs) - 1) cs))
      else fieldsLoop (Some ((case cur of None \<Rightarrow> [] | Some f \<Rightarrow> f) @ [c])) cs)"

definition Fields :: "string \<Rightarrow> string list" where
  "Fields s = fieldsLoop None s"

text \<open>\<open>strings.Cut(f, "=")\<close>: the text before and after the first occurrence of the
  separator, \<open>None\<close> when it does not occur.\<close>

definition Cut :: "string \<Rightarrow> char \<Rightarrow> (string \<times> string) option" where
  "Cut f sep =
     (if sep \<in> set f
      then Some (takeWhile (\<lambda>c. c \<noteq> sep) f, tl (dropWhile (\<lambda>c. c \<noteq> sep) f))
      else None)"

text \<open>The value of a decimal digit, \<open>None\<close> for any other byte.\<close>

definition digitOf :: "char \<Rightarrow> nat option" where
  "digitOf c =
     (let n = (of_char c :: nat)
      in if of_char (CHR ''0'') \<le> n \<and> n \<le> of_char (CHR ''9'')
         then Some (n - of_char (CHR ''0''))
         else None)"

fun digitsVal :: "nat \<Rightarrow> string \<Rightarrow> nat option" where
  "digitsVal n [] = Some n"
| "digitsVal n (c # cs) =
     (case digitOf c of None \<Rightarrow> None | Some d \<Rightarrow> digitsVal (n * 10 + d) cs)"

text \<open>\<open>strconv.ParseUint(s, 10, 64)\<close>: one or more decimal digits whose value fits
  64 bits; no sign, no underscore. Every error of Go's function is \<open>None\<close>.\<close>

definition ParseUint :: "string \<Rightarrow> 64 word option" where
  "ParseUint s =
     (if s = [] then None
      else (case digitsVal 0 s of
              None \<Rightarrow> None
            | Some n \<Rightarrow> if n < 2 ^ 64 then Some (of_nat n) else None))"

text \<open>\<open>strconv.Atoi\<close> with a 64-bit \<open>int\<close>: an optional sign, then one or more decimal
  digits, the value within the range of the type.\<close>

definition Atoi :: "string \<Rightarrow> int option" where
  "Atoi s =
     (case s of
        [] \<Rightarrow> None
      | c # cs \<Rightarrow>
          (let neg = (c = CHR ''-'');
               ds = (if c = CHR ''-'' \<or> c = CHR ''+'' then cs else s)
           in if ds = [] then None
              else (case digitsVal 0 ds of
                      None \<Rightarrow> None
                    | Some n \<Rightarrow>
                        (let v = (if neg then - int n else int n)
                         in if - (2 ^ 63) \<le> v \<and> v < 2 ^ 63 then Some v else None))))"

text \<open>\<open>bufio.ScanLines\<close>: the input cut at every line feed; a last line without a line
  feed counts when it is not empty. The first argument is the line being read.\<close>

fun splitLines :: "string \<Rightarrow> string \<Rightarrow> string list" where
  "splitLines acc [] = (if acc = [] then [] else [acc])"
| "splitLines acc (c # cs) =
     (if c = CHR 0x0A then acc # splitLines [] cs else splitLines (acc @ [c]) cs)"

definition dropCR :: "string \<Rightarrow> string" where
  "dropCR l = (if l \<noteq> [] \<and> last l = CHR 0x0D then butlast l else l)"

section \<open>internal/conntrack: the record parser\<close>

record DirectionStats =
  Packets :: "64 word"
  Bytes :: "64 word"

record ConntrackTuple =
  SrcIP :: string
  DstIP :: string
  Sport :: string
  Dport :: string

record Entry =
  L3Proto :: string
  L4Proto :: string
  Original :: ConntrackTuple
  Reply :: ConntrackTuple
  OriginalStats :: DirectionStats
  ReplyStats :: DirectionStats

text \<open>\<open>HasPorts\<close> of model.go.\<close>

definition HasPorts :: "Entry \<Rightarrow> bool" where
  "HasPorts e = (Dport (Original e) \<noteq> [] \<or> Sport (Original e) \<noteq> [])"

text \<open>\<open>parseUint64\<close> of parser.go.\<close>

definition parseUint64 :: "string \<Rightarrow> 64 word \<times> bool" where
  "parseUint64 s = (case ParseUint s of None \<Rightarrow> (0, False) | Some n \<Rightarrow> (n, True))"

text \<open>The six slices that \<open>ParseLine\<close> fills with the occurrences of the repeated keys,
  in the order they appear.\<close>

record occurrences =
  srcs :: "string list"
  dsts :: "string list"
  sports :: "string list"
  dports :: "string list"
  packets :: "64 word list"
  bytes :: "64 word list"

definition noOccurrences :: occurrences where
  "noOccurrences = \<lparr>srcs = [], dsts = [], sports = [], dports = [], packets = [], bytes = []\<rparr>"

text \<open>The body of the loop over the fields: the \<open>switch\<close> on the key of a
  \<open>key=value\<close> token.\<close>

definition collectField :: "string \<Rightarrow> occurrences \<Rightarrow> occurrences" where
  "collectField f occ =
     (case Cut f (CHR ''='') of
        None \<Rightarrow> occ
      | Some (k, v) \<Rightarrow>
          if k = ''src'' then occ\<lparr>srcs := srcs occ @ [v]\<rparr>
          else if k = ''dst'' then occ\<lparr>dsts := dsts occ @ [v]\<rparr>
          else if k = ''sport'' then occ\<lparr>sports := sports occ @ [v]\<rparr>
          else if k = ''dport'' then occ\<lparr>dports := dports occ @ [v]\<rparr>
          else if k = ''packets''
          then (if snd (parseUint64 v) then occ\<lparr>packets := packets occ @ [fst (parseUint64 v)]\<rparr>
                else occ\<lparr>packets := packets occ @ [0]\<rparr>)
          else if k = ''bytes''
          then (if snd (parseUint64 v) then occ\<lparr>bytes := bytes occ @ [fst (parseUint64 v)]\<rparr>
                else occ\<lparr>bytes := bytes occ @ [0]\<rparr>)
          else occ)"

text \<open>\<open>xs[i]\<close> guarded by \<open>len(xs) >= i + 1\<close>, the field keeping its zero value
  otherwise.\<close>

definition nthOr :: "'a \<Rightarrow> 'a list \<Rightarrow> nat \<Rightarrow> 'a" where
  "nthOr d xs i = (if i + 1 \<le> length xs then xs ! i else d)"

text \<open>\<open>ParseLine\<close> of parser.go; \<open>None\<close> is the result \<open>(Entry{}, false)\<close>.\<close>

definition ParseLine :: "string \<Rightarrow> Entry option" where
  "ParseLine line0 =
     (let line = TrimSpace line0 in
      if line = [] then None
      else
        (let fields = Fields line in
         if length fields < 1 then None
         else
           (let occ = fold collectField fields noOccurrences;
                e = \<lparr>L3Proto = fields ! 0,
                     L4Proto = (if 3 \<le> length fields then fields ! 2 else []),
                     Original = \<lparr>SrcIP = nthOr [] (srcs occ) 0, DstIP = nthOr [] (dsts occ) 0,
                                 Sport = nthOr [] (sports occ) 0, Dport = nthOr [] (dports occ) 0\<rparr>,
                     Reply = \<lparr>SrcIP = nthOr [] (srcs occ) 1, DstIP = nthOr [] (dsts occ) 1,
                              Sport = nthOr [] (sports occ) 1, Dport = nthOr [] (dports occ) 1\<rparr>,
                     OriginalStats = \<lparr>Packets = nthOr 0 (packets occ) 0,
                                      Bytes = nthOr 0 (bytes occ) 0\<rparr>,
                     ReplyStats = \<lparr>Packets = nthOr 0 (packets occ) 1,
                                   Bytes = nthOr 0 (bytes occ) 1\<rparr>\<rparr>
            in if L3Proto e = [] \<or> SrcIP (Original e) = [] \<or> DstIP (Original e) = []
               then None
               else Some e)))"

section \<open>internal/ports: the service-name table\<close>

text \<open>\<open>L7ProtocolFromDPort\<close> of l7.go. The cases of the \<open>switch\<close> are all below
  \<open>2 ^ 31\<close>, so the result is the same where Go's \<open>int\<close> has 32 bits.\<close>

definition L7ProtocolFromDPort :: "string \<Rightarrow> string" where
  "L7ProtocolFromDPort dport =
     (if dport = [] then ''unknown''
      else if dport = ''0'' then ''na''
      else (case Atoi dport of
              None \<Rightarrow> ''unknown''
            | Some p \<Rightarrow>
                if p = 20 \<or> p = 21 then ''ftp''
                else if p = 22 then ''ssh''
                else if p = 23 then ''telnet''
                else if p = 25 then ''smtp''
                else if p = 53 then ''dns''
                else if p = 80 then ''http''
                else if p = 110 then ''pop3''
                else if p = 143 then ''imap''
                else if p = 389 then ''ldap''
                else if p = 443 then ''https''
                else if p = 465 \<or> p = 587 then ''smtp''
                else if p = 631 then ''ipp''
                else if p = 993 then ''imaps''
                else if p = 995 then ''pop3s''
                else if p = 3306 then ''mysql''
                else if p = 5432 then ''postgres''
                else if p = 6379 then ''redis''
                else if p = 9200 then ''elasticsearch''
                else ''unknown''))"

section \<open>internal/collector: aggregation\<close>

record key =
  Src :: string
  Dst :: string
  L3 :: string
  L4 :: string
  DPort :: string
  L7 :: string

record aggValues =
  SentPackets :: "64 word"
  SentBytes :: "64 word"
  ReplyPackets :: "64 word"
  ReplyBytes :: "64 word"

text \<open>
  A Go \<open>map[key]aggValues\<close> is an association list whose keys are distinct: \<open>m[k]\<close> is
  \<open>lookupAgg\<close> (the zero value for a missing key), \<open>m[k] = v\<close> is \<open>AList.update\<close>,
  \<open>delete(m, k)\<close> is \<open>AList.delete\<close>, and \<open>range m\<close> visits the list. Go visits a map
  in an order of its own choosing; the theorems below hold for every list, so for every
  order, and what the loops over a snapshot leave in the totals, in the seen keys and
  in the previous snapshot is given below in terms of the map alone.
\<close>

type_synonym snapshot = "(key \<times> aggValues) list"

definition zeroAgg :: aggValues where
  "zeroAgg = \<lparr>SentPackets = 0, SentBytes = 0, ReplyPackets = 0, ReplyBytes = 0\<rparr>"

definition lookupAgg :: "snapshot \<Rightarrow> key \<Rightarrow> aggValues" where
  "lookupAgg m k = (case map_of m k of None \<Rightarrow> zeroAgg | Some v \<Rightarrow> v)"

datatype error = ReadError string | ErrTooLong | NoEntries

text \<open>The key of a parsed record, as \<open>parseAndAggregate\<close> builds it in the body of its
  loop: the destination port and its service name, replaced by \<open>"0"\<close> and \<open>"na"\<close> when
  the record has no ports.\<close>

definition buildKey :: "Entry \<Rightarrow> key" where
  "buildKey e =
     (let dport0 = Dport (Original e);
          l70 = L7ProtocolFromDPort dport0;
          dport = (if \<not> HasPorts e then ''0'' else dport0);
          l7 = (if \<not> HasPorts e then ''na'' else l70)
      in \<lparr>Src = SrcIP (Original e), Dst = DstIP (Original e),
          L3 = L3Proto e, L4 = L4Proto e, DPort = dport, L7 = l7\<rparr>)"

text \<open>The additive merge of a record into the map being built.\<close>

definition addEntry :: "Entry \<Rightarrow> snapshot \<Rightarrow> snapshot" where
  "addEntry e out =
     (let k = buildKey e;
          v = lookupAgg out k
      in AList.update k
           \<lparr>SentPackets = SentPackets v + Packets (OriginalStats e),
            SentBytes = SentBytes v + Bytes (OriginalStats e),
            ReplyPackets = ReplyPackets v + Packets (ReplyStats e),
            ReplyBytes = ReplyBytes v + Bytes (ReplyStats e)\<rparr> out)"

text \<open>The loop over the scanned lines; the state is the map \<open>out\<close> and the flag
  \<open>any\<close>.\<close>

fun aggLoop :: "string list \<Rightarrow> snapshot \<times> bool \<Rightarrow> snapshot \<times> bool" where
  "aggLoop [] st = st"
| "aggLoop (text # rest) (out, any) =
     (if TrimSpace text = [] then aggLoop rest (out, any)
      else (case ParseLine (TrimSpace text) of
              None \<Rightarrow> aggLoop rest (out, any)
            | Some e \<Rightarrow> aggLoop rest (addEntry e out, True)))"

text \<open>
  The scanner is given a buffer of at most \<open>1024 * 1024\<close> bytes. It delivers the lines
  in order, each without its line feed and without a carriage return before it, and
  stops with \<open>ErrTooLong\<close> at the first line that does not fit the buffer together with
  the byte that ends it; a last line without a line feed is also refused when it fills
  the buffer, since the scanner asks for more input before it sees the end. The lines
  before that one have gone through the loop, and the error is returned after it.
\<close>

definition maxTokenSize :: nat where
  "maxTokenSize = 1024 * 1024"

definition scanTokens :: "string \<Rightarrow> string list" where
  "scanTokens raw = map dropCR (takeWhile (\<lambda>l. length l < maxTokenSize) (splitLines [] raw))"

definition scanErr :: "string \<Rightarrow> error option" where
  "scanErr raw =
     (if list_all (\<lambda>l. length l < maxTokenSize) (splitLines [] raw) then None
      else Some ErrTooLong)"

definition parseAndAggregate :: "string \<Rightarrow> error + snapshot" where
  "parseAndAggregate raw =
     (case aggLoop (scanTokens raw) ([], False) of
        (out, any) \<Rightarrow>
          (case scanErr raw of
             Some err \<Rightarrow> Inl err
           | None \<Rightarrow> if \<not> any then Inl NoEntries else Inr out))"

section \<open>The Prometheus client: float64 values, counters and gauges\<close>

text \<open>
  The collector publishes through counters and gauges of the Prometheus client, whose
  values are of Go's type \<open>float64\<close>. Every \<open>float64\<close> that the collector hands to the
  client, or that the client computes from those, is a whole number that is not
  negative, or plus infinity: the collector converts unsigned 64-bit integers, and the
  client adds such values. On these values, conversion and addition give the exact
  result rounded to the nearest number with 53 significant binary digits, the even one
  of two that are equally near, and plus infinity from \<open>2 ^ 1024\<close> on. So a \<open>float64\<close>
  is kept here as the natural number it stands for, or as \<open>PosInf\<close>.
\<close>

text \<open>The distance between neighbouring \<open>float64\<close> numbers at \<open>n\<close>: 1 below \<open>2 ^ 53\<close>,
  and twice as much with every binary digit more.\<close>

fun ulp :: "nat \<Rightarrow> nat" where
  "ulp n = (if n < 2 ^ 53 then 1 else 2 * ulp (n div 2))"

declare ulp.simps [simp del]

text \<open>Rounding to the nearest multiple of that distance, a tie going to the even
  multiple.\<close>

definition roundF64 :: "nat \<Rightarrow> nat" where
  "roundF64 n =
     (let u = ulp n; q = n div u; r = n mod u
      in if 2 * r < u then q * u
         else if u < 2 * r then (q + 1) * u
         else if even q then q * u
         else (q + 1) * u)"

datatype f64 = Finite nat | PosInf

text \<open>The conversion \<open>float64(n)\<close> of a whole number, and the sum of two values.\<close>

definition float64 :: "nat \<Rightarrow> f64" where
  "float64 n = (if roundF64 n < 2 ^ 1024 then Finite (roundF64 n) else PosInf)"

fun fadd :: "f64 \<Rightarrow> f64 \<Rightarrow> f64" where
  "fadd (Finite a) (Finite b) = float64 (a + b)"
| "fadd (Finite a) PosInf = PosInf"
| "fadd PosInf y = PosInf"

fun f64_le :: "f64 \<Rightarrow> f64 \<Rightarrow> bool" where
  "f64_le (Finite a) (Finite b) = (a \<le> b)"
| "f64_le x PosInf = True"
| "f64_le PosInf (Finite b) = False"

text \<open>
  Go's conversion \<open>uint64(x)\<close> of a \<open>float64\<close>: exact for a whole number below \<open>2 ^ 64\<close>.
  For a value that the type cannot hold the language leaves the result to the
  implementation; \<open>ovf\<close> stands for that result, and every function that reaches the
  conversion takes it as its first argument.
\<close>

definition uint64OfFloat :: "64 word \<Rightarrow> f64 \<Rightarrow> 64 word" where
  "uint64OfFloat ovf x =
     (case x of Finite n \<Rightarrow> if n < 2 ^ 64 then of_nat n else ovf | PosInf \<Rightarrow> ovf)"

text \<open>
  A counter of the client holds two parts: \<open>valInt\<close>, an unsigned 64-bit integer that
  takes the amounts that are whole numbers, with the wrap-around of the machine
  addition, and \<open>valBits\<close>, a \<open>float64\<close> that takes the other amounts. The value it
  publishes is the \<open>float64\<close> sum of the two.
\<close>

record counter =
  valBits :: f64
  valInt :: "64 word"

definition newCounter :: counter where
  "newCounter = \<lparr>valBits = Finite 0, valInt = 0\<rparr>"

text \<open>\<open>Add(v)\<close>, for an amount that is not negative (the client panics on a negative
  one, which the collector never passes), \<open>Inc()\<close> and the value read at a scrape.\<close>

definition counterAddTo :: "64 word \<Rightarrow> f64 \<Rightarrow> counter \<Rightarrow> counter" where
  "counterAddTo ovf v cnt =
     (let ival = uint64OfFloat ovf v
      in if float64 (unat ival) = v then cnt\<lparr>valInt := valInt cnt + ival\<rparr>
         else cnt\<lparr>valBits := fadd (valBits cnt) v\<rparr>)"

definition counterIncr :: "counter \<Rightarrow> counter" where
  "counterIncr cnt = cnt\<lparr>valInt := valInt cnt + 1\<rparr>"

definition counterGet :: "counter \<Rightarrow> f64" where
  "counterGet cnt = fadd (valBits cnt) (float64 (unat (valInt cnt)))"

text \<open>
  A metric vector maps the label values of a series to its counter or to its gauge
  value; \<open>WithLabelValues\<close> gives the series, a new one if there is none yet. It panics
  on label values that are not valid UTF-8, which ends the process; that is not
  modelled.
\<close>

type_synonym counterVec = "string list \<rightharpoonup> counter"

type_synonym gaugeVec = "string list \<rightharpoonup> f64"

definition withLabelValues :: "counterVec \<Rightarrow> string list \<Rightarrow> counter" where
  "withLabelValues m ls = (case m ls of None \<Rightarrow> newCounter | Some cnt \<Rightarrow> cnt)"

text \<open>\<open>WithLabelValues(labels...).Add(v)\<close>, \<open>.Inc()\<close> and \<open>.Set(x)\<close>.\<close>

definition counterAdd :: "64 word \<Rightarrow> counterVec \<Rightarrow> string list \<Rightarrow> f64 \<Rightarrow> counterVec" where
  "counterAdd ovf m ls v = m(ls \<mapsto> counterAddTo ovf v (withLabelValues m ls))"

definition counterInc :: "counterVec \<Rightarrow> string list \<Rightarrow> counterVec" where
  "counterInc m ls = m(ls \<mapsto> counterIncr (withLabelValues m ls))"

definition gaugeSet :: "gaugeVec \<Rightarrow> string list \<Rightarrow> f64 \<Rightarrow> gaugeVec" where
  "gaugeSet m ls x = m(ls \<mapsto> x)"

text \<open>The value a scrape reads for a series; a series that does not exist yet reads as
  a new one.\<close>

definition counterValue :: "counterVec \<Rightarrow> string list \<Rightarrow> f64" where
  "counterValue m ls = counterGet (withLabelValues m ls)"

section \<open>internal/collector: the counter-delta engine\<close>

record ConntrackCollector =
  prev :: snapshot
  seen :: "key set"
  sentPackets :: gaugeVec
  sentBytes :: gaugeVec
  replyPackets :: gaugeVec
  replyBytes :: gaugeVec
  totalConnections :: counterVec
  totalSentPackets :: counterVec
  totalSentBytes :: counterVec
  totalReplyPackets :: counterVec
  totalReplyBytes :: counterVec

text \<open>\<open>NewConntrackCollector\<close>: empty maps, no series.\<close>

definition NewConntrackCollector :: ConntrackCollector where
  "NewConntrackCollector =
     \<lparr>prev = [], seen = {},
      sentPackets = Map.empty, sentBytes = Map.empty,
      replyPackets = Map.empty, replyBytes = Map.empty,
      totalConnections = Map.empty, totalSentPackets = Map.empty,
      totalSentBytes = Map.empty, totalReplyPackets = Map.empty,
      totalReplyBytes = Map.empty\<rparr>"

definition labelValues :: "key \<Rightarrow> string list" where
  "labelValues k = [Src k, Dst k, L3 k, L4 k, L7 k, DPort k]"

definition delta :: "64 word \<Rightarrow> 64 word \<Rightarrow> 64 word" where
  "delta prv cur = (if cur < prv then 0 else cur - prv)"

text \<open>The body of the first loop of \<open>applySnapshot\<close>: the four gauges of a key.\<close>

definition setGauges :: "key \<Rightarrow> aggValues \<Rightarrow> ConntrackCollector \<Rightarrow> ConntrackCollector" where
  "setGauges k v c =
     c\<lparr>sentPackets := gaugeSet (sentPackets c) (labelValues k) (float64 (unat (SentPackets v))),
       sentBytes := gaugeSet (sentBytes c) (labelValues k) (float64 (unat (SentBytes v))),
       replyPackets := gaugeSet (replyPackets c) (labelValues k) (float64 (unat (ReplyPackets v))),
       replyBytes := gaugeSet (replyBytes c) (labelValues k) (float64 (unat (ReplyBytes v)))\<rparr>"

text \<open>The body of the second loop: the first sighting of a key, then the four deltas
  against the previous snapshot.\<close>

definition addTotals :: "64 word \<Rightarrow> key \<Rightarrow> aggValues \<Rightarrow> ConntrackCollector \<Rightarrow> ConntrackCollector" where
  "addTotals ovf k v c =
     (let labels = labelValues k;
          c1 = (if k \<notin> seen c
                then c\<lparr>totalConnections := counterInc (totalConnections c) labels,
                       seen := insert k (seen c)\<rparr>
                else c);
          pv = lookupAgg (prev c1) k;
          c2 = (if 0 < delta (SentPackets pv) (SentPackets v)
                then c1\<lparr>totalSentPackets := counterAdd ovf (totalSentPackets c1) labels
                         (float64 (unat (delta (SentPackets pv) (SentPackets v))))\<rparr>
                else c1);
          c3 = (if 0 < delta (SentBytes pv) (SentBytes v)
                then c2\<lparr>totalSentBytes := counterAdd ovf (totalSentBytes c2) labels
                         (float64 (unat (delta (SentBytes pv) (SentBytes v))))\<rparr>
                else c2);
          c4 = (if 0 < delta (ReplyPackets pv) (ReplyPackets v)
                then c3\<lparr>totalReplyPackets := counterAdd ovf (totalReplyPackets c3) labels
                         (float64 (unat (delta (ReplyPackets pv) (ReplyPackets v))))\<rparr>
                else c3);
          c5 = (if 0 < delta (ReplyBytes pv) (ReplyBytes v)
                then c4\<lparr>totalReplyBytes := counterAdd ovf (totalReplyBytes c4) labels
                         (float64 (unat (delta (ReplyBytes pv) (ReplyBytes v))))\<rparr>
                else c4)
      in c5)"

text \<open>The body of the third loop, over the keys of \<open>prev\<close>, and of the fourth.\<close>

definition dropAbsent :: "snapshot \<Rightarrow> key \<Rightarrow> ConntrackCollector \<Rightarrow> ConntrackCollector" where
  "dropAbsent cur k c =
     (if map_of cur k = None then c\<lparr>prev := AList.delete k (prev c)\<rparr> else c)"

definition storePrev :: "key \<Rightarrow> aggValues \<Rightarrow> ConntrackCollector \<Rightarrow> ConntrackCollector" where
  "storePrev k v c = c\<lparr>prev := AList.update k v (prev c)\<rparr>"

text \<open>The four \<open>Reset()\<close> calls that open \<open>applySnapshot\<close>.\<close>

definition resetGauges :: "ConntrackCollector \<Rightarrow> ConntrackCollector" where
  "resetGauges c = c\<lparr>sentPackets := Map.empty, sentBytes := Map.empty,
                      replyPackets := Map.empty, replyBytes := Map.empty\<rparr>"

text \<open>\<open>applySnapshot\<close>: the gauges are reset and set again, the totals take the deltas,
  then \<open>prev\<close> loses the keys that \<open>cur\<close> does not have and takes the values of
  \<open>cur\<close>. The mutex is not modelled: the function runs alone.\<close>

definition applySnapshot :: "64 word \<Rightarrow> ConntrackCollector \<Rightarrow> snapshot \<Rightarrow> ConntrackCollector" where
  "applySnapshot ovf c cur =
     (let c0 = resetGauges c;
          c1 = fold (\<lambda>(k, v). setGauges k v) cur c0;
          c2 = fold (\<lambda>(k, v). addTotals ovf k v) cur c1;
          c3 = fold (dropAbsent cur) (map fst (prev c2)) c2;
          c4 = fold (\<lambda>(k, v). storePrev k v) cur c3
      in c4)"

text \<open>\<open>UpdateOnce\<close>: the result of reading the file is an input of the model; the error
  returned is \<open>None\<close> for \<open>nil\<close>.\<close>

definition UpdateOnce :: "64 word \<Rightarrow> error + string \<Rightarrow> ConntrackCollector \<Rightarrow> error option \<times> ConntrackCollector" where
  "UpdateOnce ovf readResult c =
     (case readResult of
        Inl err \<Rightarrow> (Some err, c)
      | Inr raw \<Rightarrow>
          (case parseAndAggregate raw of
             Inl err \<Rightarrow> (Some err, c)
           | Inr snap \<Rightarrow> (None, applySnapshot ovf c snap)))"

section \<open>Notions the properties are stated with\<close>

text \<open>The records that \<open>parseAndAggregate\<close> accepts from an input, in the order of
  their lines.\<close>

definition parsedEntries :: "string \<Rightarrow> Entry list" where
  "parsedEntries raw = List.map_filter (\<lambda>t. ParseLine (TrimSpace t)) (scanTokens raw)"

text \<open>The values that \<open>addEntry\<close> stores for a record merged into the values \<open>v\<close>.\<close>

definition plusEntry :: "aggValues \<Rightarrow> Entry \<Rightarrow> aggValues" where
  "plusEntry v e =
     \<lparr>SentPackets = SentPackets v + Packets (OriginalStats e),
      SentBytes = SentBytes v + Bytes (OriginalStats e),
      ReplyPackets = ReplyPackets v + Packets (ReplyStats e),
      ReplyBytes = ReplyBytes v + Bytes (ReplyStats e)\<rparr>"

text \<open>The component-wise sum of the counters of a list of records, in 64-bit
  arithmetic.\<close>

definition sumAgg :: "Entry list \<Rightarrow> aggValues" where
  "sumAgg es =
     \<lparr>SentPackets = sum_list (map (\<lambda>e. Packets (OriginalStats e)) es),
      SentBytes = sum_list (map (\<lambda>e. Bytes (OriginalStats e)) es),
      ReplyPackets = sum_list (map (\<lambda>e. Packets (ReplyStats e)) es),
      ReplyBytes = sum_list (map (\<lambda>e. Bytes (ReplyStats e)) es)\<rparr>"

text \<open>What the second loop of \<open>applySnapshot\<close> leaves in a total for a key whose counter
  went from \<open>p\<close> to \<open>q\<close>: one \<open>Add\<close> of the delta when it is positive, nothing
  otherwise.\<close>

definition stepTotal :: "64 word \<Rightarrow> 64 word \<Rightarrow> 64 word \<Rightarrow> counterVec \<Rightarrow> string list \<Rightarrow> counter option" where
  "stepTotal ovf p q m ls =
     (if 0 < delta p q
      then Some (counterAddTo ovf (float64 (unat (delta p q))) (withLabelValues m ls))
      else m ls)"

text \<open>The amount \<open>float64(d)\<close> fits a counter when adding it to \<open>valInt\<close> does not pass
  \<open>2 ^ 64\<close>, so that the addition does not wrap around.\<close>

definition addFits :: "counter \<Rightarrow> 64 word \<Rightarrow> bool" where
  "addFits cnt d = (unat (valInt cnt) + roundF64 (unat d) < 2 ^ 64)"

text \<open>The deltas that a step has for a key fit the four totals of the key.\<close>

definition stepFits :: "ConntrackCollector \<Rightarrow> snapshot \<Rightarrow> key \<Rightarrow> bool" where
  "stepFits c cur K =
     (case map_of cur K of
        None \<Rightarrow> True
      | Some v \<Rightarrow>
          addFits (withLabelValues (totalSentPackets c) (labelValues K))
            (delta (SentPackets (lookupAgg (prev c) K)) (SentPackets v))
          \<and> addFits (withLabelValues (totalSentBytes c) (labelValues K))
            (delta (SentBytes (lookupAgg (prev c) K)) (SentBytes v))
          \<and> addFits (withLabelValues (totalReplyPackets c) (labelValues K))
            (delta (ReplyPackets (lookupAgg (prev c) K)) (ReplyPackets v))
          \<and> addFits (withLabelValues (totalReplyBytes c) (labelValues K))
            (delta (ReplyBytes (lookupAgg (prev c) K)) (ReplyBytes v)))"

text \<open>A sequence of snapshots, each a map, along which the deltas of a key fit its
  totals at every step.\<close>

fun runFits :: "64 word \<Rightarrow> ConntrackCollector \<Rightarrow> snapshot list \<Rightarrow> key \<Rightarrow> bool" where
  "runFits ovf c [] K = True"
| "runFits ovf c (s # ss) K =
     (distinct (map fst s) \<and> stepFits c s K \<and> runFits ovf (applySnapshot ovf c s) ss K)"

section \<open>Concrete inputs\<close>

definition exampleLine1 :: string where
  "exampleLine1 = ''ipv4 2 tcp 6 431999 ESTABLISHED src=10.0.0.5 dst=93.184.216.34 sport=51514 dport=443 packets=10 bytes=1000 src=93.184.216.34 dst=10.0.0.5 sport=443 dport=51514 packets=8 bytes=900''"

definition exampleLine2 :: string where
  "exampleLine2 = ''ipv4 2 tcp 6 431999 ESTABLISHED src=10.0.0.5 dst=93.184.216.34 sport=51520 dport=443 packets=10 bytes=1000 src=93.184.216.34 dst=10.0.0.5 sport=443 dport=51514 packets=8 bytes=900''"

text \<open>One line, and the two lines, each ended by a line feed.\<close>

definition exampleText1 :: string where
  "exampleText1 = exampleLine1 @ [CHR 0x0A]"

definition exampleText2 :: string where
  "exampleText2 = exampleLine1 @ [CHR 0x0A] @ exampleLine2 @ [CHR 0x0A]"

definition exampleKey :: key where
  "exampleKey = \<lparr>Src = ''10.0.0.5'', Dst = ''93.184.216.34'', L3 = ''ipv4'', L4 = ''tcp'',
                  DPort = ''443'', L7 = ''https''\<rparr>"

text \<open>The record of the example lines, for a source port \<open>sp\<close>.\<close>

definition exampleEntry :: "string \<Rightarrow> Entry" where
  "exampleEntry sp =
     \<lparr>L3Proto = ''ipv4'', L4Proto = ''tcp'',
      Original = \<lparr>SrcIP = ''10.0.0.5'', DstIP = ''93.184.216.34'', Sport = sp, Dport = ''443''\<rparr>,
      Reply = \<lparr>SrcIP = ''93.184.216.34'', DstIP = ''10.0.0.5'', Sport = ''443'', Dport = ''51514''\<rparr>,
      OriginalStats = \<lparr>Packets = 10, Bytes = 1000\<rparr>,
      ReplyStats = \<lparr>Packets = 8, Bytes = 900\<rparr>\<rparr>"

definition otherKey :: key where
  "otherKey = \<lparr>Src = ''10.0.0.5'', Dst = ''93.184.216.34'', L3 = ''ipv4'', L4 = ''tcp'',
                DPort = ''80'', L7 = ''http''\<rparr>"

definition sentOnly :: "64 word \<Rightarrow> 64 word \<Rightarrow> aggValues" where
  "sentOnly p b = \<lparr>SentPackets = p, SentBytes = b, ReplyPackets = 0, ReplyBytes = 0\<rparr>"

text \<open>Three snapshots: the example key with 100 packets and 50 bytes sent, another key
  alone, and the example key again with 40 packets and 10 bytes.\<close>

definition snapA :: snapshot where
  "snapA = [(exampleKey, sentOnly 100 50)]"

definition snapB :: snapshot where
  "snapB = [(otherKey, sentOnly 1 1)]"

definition snapC :: snapshot where
  "snapC = [(exampleKey, sentOnly 40 10)]"

text \<open>The example key with \<open>2 ^ 54\<close> bytes sent, and with \<open>2 ^ 63\<close>.\<close>

definition snapBig :: snapshot where
  "snapBig = [(exampleKey, sentOnly 1 (2 ^ 54))]"

definition snapHuge :: snapshot where
  "snapHuge = [(exampleKey, sentOnly 1 (2 ^ 63))]"

text \<open>A text with a comment, a line of blanks ended by carriage return and line feed, and
  an empty line.\<close>

definition exampleGarbage :: string where
  "exampleGarbage = ''# no entries'' @ [CHR 0x0A] @ ''   '' @ [CHR 0x0D, CHR 0x0A] @ [CHR 0x0A]"

text \<open>Two lines of a protocol without ports, the second with a source port only, and
  their records.\<close>

definition portlessLine :: string where
  "portlessLine = ''ipv4 2 icmp 1 29 src=10.0.0.5 dst=10.0.0.9 packets=3 bytes=252''"

definition sportOnlyLine :: string where
  "sportOnlyLine = ''ipv4 2 icmp 1 29 src=10.0.0.5 dst=10.0.0.9 sport=7 packets=3 bytes=252''"

definition portlessEntry :: "string \<Rightarrow> Entry" where
  "portlessEntry sp =
     \<lparr>L3Proto = ''ipv4'', L4Proto = ''icmp'',
      Original = \<lparr>SrcIP = ''10.0.0.5'', DstIP = ''10.0.0.9'', Sport = sp, Dport = []\<rparr>,
      Reply = \<lparr>SrcIP = [], DstIP = [], Sport = [], Dport = []\<rparr>,
      OriginalStats = \<lparr>Packets = 3, Bytes = 252\<rparr>,
      ReplyStats = \<lparr>Packets = 0, Bytes = 0\<rparr>\<rparr>"

section \<open>Rounding to float64\<close>

lemma ulp_pos: "0 < ulp n"
  by (induction n rule: ulp.induct) (subst ulp.simps, simp)

lemma ulp_small: "n < 2 ^ 53 \<Longrightarrow> ulp n = 1"
  by (subst ulp.simps) simp

lemma ulp_large: "\<not> n < 2 ^ 53 \<Longrightarrow> ulp n = 2 * ulp (n div 2)"
  by (subst ulp.simps) simp

lemma ulp_bounds: "2 ^ 53 \<le> n \<Longrightarrow> 2 ^ 52 * ulp n \<le> n \<and> n < 2 ^ 53 * ulp n"
proof (induction n rule: ulp.induct)
  case (1 n)
  from "1.prems" have nl: "\<not> n < 2 ^ 53" by simp
  show ?case
  proof (cases "n div 2 < 2 ^ 53")
    case True
    then have "ulp n = 2" using nl by (simp add: ulp_large ulp_small)
    with True "1.prems" show ?thesis by simp
  next
    case False
    then have "2 ^ 52 * ulp (n div 2) \<le> n div 2 \<and> n div 2 < 2 ^ 53 * ulp (n div 2)"
      using "1.IH" [OF nl] by simp
    then show ?thesis using nl by (simp add: ulp_large) linarith
  qed
qed

lemma ulp_mono: "m \<le> n \<Longrightarrow> ulp m \<le> ulp n"
proof (induction n arbitrary: m rule: ulp.induct)
  case (1 n)
  show ?case
  proof (cases "n < 2 ^ 53")
    case True
    with "1.prems" show ?thesis by (simp add: ulp_small)
  next
    case False
    show ?thesis
    proof (cases "m < 2 ^ 53")
      case True
      then show ?thesis using ulp_pos [of n] by (simp add: ulp_small)
    next
      case mf: False
      have "m div 2 \<le> n div 2" using "1.prems" by (rule div_le_mono)
      from "1.IH" [OF False this] show ?thesis using False mf by (simp add: ulp_large)
    qed
  qed
qed

lemma ulp_step: "ulp m < ulp n \<Longrightarrow> 2 * ulp m \<le> ulp n"
proof (induction n arbitrary: m rule: ulp.induct)
  case (1 n)
  show ?case
  proof (cases "n < 2 ^ 53")
    case True
    with "1.prems" ulp_pos [of m] show ?thesis by (simp add: ulp_small)
  next
    case False
    show ?thesis
    proof (cases "m < 2 ^ 53")
      case True
      then show ?thesis using ulp_pos [of "n div 2"] False by (simp add: ulp_small ulp_large)
    next
      case mf: False
      from "1.prems" have "ulp (m div 2) < ulp (n div 2)" using False mf by (simp add: ulp_large)
      from "1.IH" [OF False this] show ?thesis using False mf by (simp add: ulp_large)
    qed
  qed
qed

lemma round_small: "n \<le> 2 ^ 53 \<Longrightarrow> roundF64 n = n"
proof (cases "n < 2 ^ 53")
  case True
  then show ?thesis by (simp add: roundF64_def ulp_small)
next
  case False
  assume "n \<le> 2 ^ 53"
  with False have n: "n = 2 ^ 53" by simp
  have "ulp n = 2" unfolding n by (simp add: ulp_large ulp_small)
  then show ?thesis by (simp add: roundF64_def n)
qed

lemma round_lower: "(n div ulp n) * ulp n \<le> roundF64 n"
  by (simp add: roundF64_def Let_def)

lemma round_upper: "roundF64 n \<le> (n div ulp n + 1) * ulp n"
  by (simp add: roundF64_def Let_def)

lemma round_mono_same:
  assumes mn: "m \<le> n" and u: "ulp m = ulp n"
  shows "roundF64 m \<le> roundF64 n"
proof -
  let ?u = "ulp n"
  have up: "0 < ?u" by (rule ulp_pos)
  have q: "m div ?u \<le> n div ?u" using mn by (rule div_le_mono)
  show ?thesis
  proof (cases "m div ?u < n div ?u")
    case True
    then have "m div ?u + 1 \<le> n div ?u" by simp
    then have "(m div ?u + 1) * ?u \<le> (n div ?u) * ?u"
      by (rule mult_le_mono1)
    with round_upper [of m] round_lower [of n] u show ?thesis by simp
  next
    case False
    with q have qe: "m div ?u = n div ?u" by simp
    have "m = (m div ?u) * ?u + m mod ?u" "n = (n div ?u) * ?u + n mod ?u" by simp_all
    with qe mn have r: "m mod ?u \<le> n mod ?u"
      by (metis add_le_cancel_left)
    show ?thesis
      using r qe u by (simp add: roundF64_def Let_def)
  qed
qed

lemma round_mono_diff:
  assumes u: "ulp m < ulp n"
  shows "roundF64 m \<le> roundF64 n"
proof -
  have n53: "2 ^ 53 \<le> n"
  proof (rule ccontr)
    assume "\<not> 2 ^ 53 \<le> n"
    then have "ulp n = 1" by (simp add: ulp_small)
    with u ulp_pos [of m] show False by simp
  qed
  from ulp_bounds [OF n53] have nb: "2 ^ 52 * ulp n \<le> n" by simp
  have qn: "2 ^ 52 \<le> n div ulp n"
  proof -
    have "(2 ^ 52 * ulp n) div ulp n \<le> n div ulp n" using nb by (rule div_le_mono)
    then show ?thesis using ulp_pos [of n] by simp
  qed
  have low: "2 ^ 52 * ulp n \<le> roundF64 n"
  proof -
    have "2 ^ 52 * ulp n \<le> (n div ulp n) * ulp n" using qn by (rule mult_le_mono1)
    from this round_lower [of n] show ?thesis by (rule order_trans)
  qed
  have up: "roundF64 m \<le> 2 ^ 53 * ulp m"
  proof (cases "m < 2 ^ 53")
    case True
    then show ?thesis by (simp add: round_small ulp_small)
  next
    case False
    then have "m < 2 ^ 53 * ulp m" using ulp_bounds [of m] by simp
    then have "m div ulp m < 2 ^ 53" using ulp_pos [of m]
      by (simp add: less_mult_imp_div_less mult.commute)
    then have "m div ulp m + 1 \<le> 2 ^ 53" by simp
    then have "(m div ulp m + 1) * ulp m \<le> 2 ^ 53 * ulp m"
      by (rule mult_le_mono1)
    with round_upper [of m] show ?thesis by (rule order_trans)
  qed
  from ulp_step [OF u] have "2 ^ 53 * ulp m \<le> 2 ^ 52 * ulp n" by simp
  with up low show ?thesis by simp
qed

lemma round_mono: "m \<le> n \<Longrightarrow> roundF64 m \<le> roundF64 n"
  using ulp_mono [of m n] round_mono_same [of m n] round_mono_diff [of m n]
  by (cases "ulp m = ulp n") auto

lemma ulp_unique:
  assumes "2 ^ 52 * ulp m \<le> x" and "x < 2 ^ 53 * ulp m"
  shows "ulp x = ulp m"
proof (rule ccontr)
  assume ne: "ulp x \<noteq> ulp m"
  show False
  proof (cases "ulp x < ulp m")
    case True
    from ulp_step [OF True] have s: "2 * ulp x \<le> ulp m" .
    with assms(1) have "2 ^ 53 * ulp x \<le> x" by simp
    moreover have "2 ^ 53 \<le> x" using calculation ulp_pos [of x]
      by (metis One_nat_def Suc_leI le_trans mult.right_neutral mult_le_mono2)
    ultimately show False using ulp_bounds [of x] by simp
  next
    case False
    with ne have g: "ulp m < ulp x" by simp
    have x53: "2 ^ 53 \<le> x"
    proof (rule ccontr)
      assume "\<not> 2 ^ 53 \<le> x"
      then have "ulp x = 1" by (simp add: ulp_small)
      with g ulp_pos [of m] show False by simp
    qed
    from ulp_step [OF g] ulp_bounds [OF x53] have "2 ^ 53 * ulp m \<le> x" by simp
    with assms(2) show False by simp
  qed
qed

lemma round_multiple:
  assumes "2 ^ 52 \<le> k" and "k \<le> 2 ^ 53"
  shows "roundF64 (k * ulp m) = k * ulp m"
proof (cases "k < 2 ^ 53")
  case True
  have "ulp (k * ulp m) = ulp m"
    using assms(1) True ulp_pos [of m] by (intro ulp_unique) simp_all
  then show ?thesis using ulp_pos [of m] by (simp add: roundF64_def)
next
  case False
  with assms have k: "k = 2 ^ 53" by simp
  have h: "ulp (2 ^ 52 * ulp m) = ulp m"
    using ulp_pos [of m] by (intro ulp_unique) simp_all
  have big: "\<not> 2 ^ 53 * ulp m < 2 ^ 53" using ulp_pos [of m] by simp
  have "(2 ^ 53 * ulp m) div 2 = 2 ^ 52 * ulp m" by simp
  with h big have u: "ulp (2 ^ 53 * ulp m) = 2 * ulp m" by (simp add: ulp_large)
  have d: "(2 ^ 53 * ulp m) div (2 * ulp m) = 2 ^ 52" using ulp_pos [of m] by simp
  have md: "(2 ^ 53 * ulp m) mod (2 * ulp m) = 0" by (simp add: mod_eq_0_iff_dvd)
  show ?thesis unfolding k roundF64_def Let_def u d md
    using ulp_pos [of m] by simp
qed

lemma round_idem: "roundF64 (roundF64 n) = roundF64 n"
proof (cases "n < 2 ^ 53")
  case True
  then show ?thesis by (simp add: round_small)
next
  case False
  then have b: "2 ^ 52 * ulp n \<le> n" "n < 2 ^ 53 * ulp n" using ulp_bounds [of n] by simp_all
  have q1: "2 ^ 52 \<le> n div ulp n"
  proof -
    have "(2 ^ 52 * ulp n) div ulp n \<le> n div ulp n" using b(1) by (rule div_le_mono)
    then show ?thesis using ulp_pos [of n] by simp
  qed
  have q2: "n div ulp n < 2 ^ 53" using b(2) ulp_pos [of n]
    by (simp add: less_mult_imp_div_less mult.commute)
  have "roundF64 n = (n div ulp n) * ulp n \<or> roundF64 n = (n div ulp n + 1) * ulp n"
    by (simp add: roundF64_def Let_def)
  then show ?thesis
    using round_multiple [of "n div ulp n" n] round_multiple [of "n div ulp n + 1" n] q1 q2
    by auto
qed

text \<open>Conversion, addition and comparison of the values.\<close>

lemma roundF64_pow64: "roundF64 (2 ^ 64) = 2 ^ 64"
  by (simp add: roundF64_def ulp.simps)

lemma roundF64_u64: "n < 2 ^ 64 \<Longrightarrow> roundF64 n \<le> 2 ^ 64"
proof -
  assume "n < 2 ^ 64"
  then have "n \<le> 2 ^ 64" by simp
  then have "roundF64 n \<le> roundF64 (2 ^ 64)" by (rule round_mono)
  then show ?thesis unfolding roundF64_pow64 .
qed

lemma float64_u64: "n < 2 ^ 64 \<Longrightarrow> float64 n = Finite (roundF64 n)"
proof -
  assume "n < 2 ^ 64"
  then have "roundF64 n \<le> 2 ^ 64" by (rule roundF64_u64)
  moreover have "(2::nat) ^ 64 < 2 ^ 1024" by simp
  ultimately have "roundF64 n < 2 ^ 1024" by (rule le_less_trans)
  then show ?thesis by (simp add: float64_def)
qed

lemma float64_unat: "float64 (unat (d :: 64 word)) = Finite (roundF64 (unat d))"
  using unsigned_less [of d] by (intro float64_u64) simp

lemma float64_small: "n \<le> 2 ^ 53 \<Longrightarrow> float64 n = Finite n"
proof -
  assume n: "n \<le> 2 ^ 53"
  moreover have "(2::nat) ^ 53 < 2 ^ 1024" by simp
  ultimately have "n < 2 ^ 1024" by (rule le_less_trans)
  with n show ?thesis by (simp add: float64_def round_small)
qed

lemma f64_le_refl: "f64_le x x"
  by (cases x) simp_all

lemma f64_le_trans: "f64_le x y \<Longrightarrow> f64_le y z \<Longrightarrow> f64_le x z"
  by (cases x; cases y; cases z) simp_all

lemma float64_mono: "m \<le> n \<Longrightarrow> f64_le (float64 m) (float64 n)"
  using round_mono [of m n] by (auto simp: float64_def)

lemma fadd_mono: "f64_le y z \<Longrightarrow> f64_le (fadd x y) (fadd x z)"
  by (cases x; cases y; cases z) (simp_all add: float64_mono f64_le_refl)

lemma f64_le_zero: "f64_le (Finite 0) x"
  by (cases x) simp_all

section \<open>The counters of the client\<close>

text \<open>An amount below \<open>2 ^ 64\<close> goes to the integer part, whatever \<open>ovf\<close> is.\<close>

lemma counterAddTo_int:
  fixes d :: "64 word"
  assumes "roundF64 (unat d) < 2 ^ 64"
  shows "counterAddTo ovf (float64 (unat d)) cnt
           = cnt\<lparr>valInt := valInt cnt + of_nat (roundF64 (unat d))\<rparr>"
proof -
  have v: "float64 (unat d) = Finite (roundF64 (unat d))" by (rule float64_unat)
  have iv: "uint64OfFloat ovf (Finite (roundF64 (unat d))) = of_nat (roundF64 (unat d))"
    using assms by (simp add: uint64OfFloat_def)
  have u: "unat (of_nat (roundF64 (unat d)) :: 64 word) = roundF64 (unat d)"
    using assms by (intro of_nat_inverse) simp_all
  have "float64 (roundF64 (unat d)) = Finite (roundF64 (roundF64 (unat d)))"
    using assms by (rule float64_u64)
  then have f: "float64 (roundF64 (unat d)) = Finite (roundF64 (unat d))"
    by (simp add: round_idem)
  show ?thesis unfolding counterAddTo_def v iv Let_def u f by simp
qed

lemma counterAddTo_exact:
  fixes d :: "64 word"
  assumes "unat d \<le> 2 ^ 53"
  shows "counterAddTo ovf (float64 (unat d)) cnt = cnt\<lparr>valInt := valInt cnt + d\<rparr>"
proof -
  have r: "roundF64 (unat d) = unat d" using assms by (rule round_small)
  have "unat d < 2 ^ 64" using unsigned_less [of d] by simp
  with r have "roundF64 (unat d) < 2 ^ 64" by simp
  from counterAddTo_int [OF this] r show ?thesis by simp
qed

text \<open>While the amount fits, the published value does not go down.\<close>

lemma counterAddTo_fits:
  assumes "addFits cnt d"
  shows "f64_le (counterGet cnt) (counterGet (counterAddTo ovf (float64 (unat d)) cnt))"
proof -
  from assms have a: "unat (valInt cnt) + roundF64 (unat d) < 2 ^ 64"
    by (simp add: addFits_def)
  then have r: "roundF64 (unat d) < 2 ^ 64" by simp
  have u: "unat (of_nat (roundF64 (unat d)) :: 64 word) = roundF64 (unat d)"
    using r by (intro of_nat_inverse) simp_all
  have "unat (valInt cnt + of_nat (roundF64 (unat d)))
          = unat (valInt cnt) + roundF64 (unat d)"
    using a by (simp add: unat_word_ariths u)
  then have "unat (valInt cnt) \<le> unat (valInt cnt + of_nat (roundF64 (unat d)))"
    by simp
  then show ?thesis
    by (simp add: counterAddTo_int [OF r] counterGet_def fadd_mono float64_mono)
qed

lemma counterValue_None: "m ls = None \<Longrightarrow> counterValue m ls = Finite 0"
  by (simp add: counterValue_def withLabelValues_def counterGet_def newCounter_def float64_small)

lemma counterValue_Some: "m ls = Some cnt \<Longrightarrow> counterValue m ls = counterGet cnt"
  by (simp add: counterValue_def withLabelValues_def)

section \<open>The engine: what one reconciliation step does\<close>

lemma labelValues_inj: "labelValues k = labelValues k' \<longleftrightarrow> k = k'"
  by (cases k, cases k') (auto simp: labelValues_def)

lemma delta_unat: "unat (delta p q) = unat q - unat p"
  by (auto simp: delta_def word_less_nat_alt unat_sub word_le_nat_alt not_less)

text \<open>The loops over the gauges and over \<open>prev\<close> leave the totals and the set of seen
  keys alone.\<close>

lemma fold_setGauges_keeps:
  "prev (fold (\<lambda>(k, v). setGauges k v) cur c) = prev c
   \<and> seen (fold (\<lambda>(k, v). setGauges k v) cur c) = seen c
   \<and> totalConnections (fold (\<lambda>(k, v). setGauges k v) cur c) = totalConnections c
   \<and> totalSentPackets (fold (\<lambda>(k, v). setGauges k v) cur c) = totalSentPackets c
   \<and> totalSentBytes (fold (\<lambda>(k, v). setGauges k v) cur c) = totalSentBytes c
   \<and> totalReplyPackets (fold (\<lambda>(k, v). setGauges k v) cur c) = totalReplyPackets c
   \<and> totalReplyBytes (fold (\<lambda>(k, v). setGauges k v) cur c) = totalReplyBytes c"
  by (induction cur arbitrary: c) (auto simp: setGauges_def)

lemma fold_dropAbsent_keeps:
  "seen (fold (dropAbsent cur) ks c) = seen c
   \<and> totalConnections (fold (dropAbsent cur) ks c) = totalConnections c
   \<and> totalSentPackets (fold (dropAbsent cur) ks c) = totalSentPackets c
   \<and> totalSentBytes (fold (dropAbsent cur) ks c) = totalSentBytes c
   \<and> totalReplyPackets (fold (dropAbsent cur) ks c) = totalReplyPackets c
   \<and> totalReplyBytes (fold (dropAbsent cur) ks c) = totalReplyBytes c"
  by (induction ks arbitrary: c) (auto simp: dropAbsent_def)

lemma fold_storePrev_keeps:
  "seen (fold (\<lambda>(k, v). storePrev k v) cur c) = seen c
   \<and> totalConnections (fold (\<lambda>(k, v). storePrev k v) cur c) = totalConnections c
   \<and> totalSentPackets (fold (\<lambda>(k, v). storePrev k v) cur c) = totalSentPackets c
   \<and> totalSentBytes (fold (\<lambda>(k, v). storePrev k v) cur c) = totalSentBytes c
   \<and> totalReplyPackets (fold (\<lambda>(k, v). storePrev k v) cur c) = totalReplyPackets c
   \<and> totalReplyBytes (fold (\<lambda>(k, v). storePrev k v) cur c) = totalReplyBytes c"
  by (induction cur arbitrary: c) (auto simp: storePrev_def)

lemma addTotals_prev: "prev (addTotals ovf k v c) = prev c"
  by (simp add: addTotals_def Let_def)

lemma fold_addTotals_prev: "prev (fold (\<lambda>(k, v). addTotals ovf k v) cur c) = prev c"
  by (induction cur arbitrary: c) (auto simp: addTotals_prev)

lemma addTotals_seen: "seen (addTotals ovf k v c) = insert k (seen c)"
  by (auto simp add: addTotals_def Let_def)

lemma fold_addTotals_seen:
  "seen (fold (\<lambda>(k, v). addTotals ovf k v) cur c) = seen c \<union> fst ` set cur"
  by (induction cur arbitrary: c) (auto simp: addTotals_seen)

text \<open>One pass of the body of the second loop, total by total.\<close>

lemma addTotals_totalSentPackets:
  "totalSentPackets (addTotals ovf k v c) =
     (if 0 < delta (SentPackets (lookupAgg (prev c) k)) (SentPackets v)
      then counterAdd ovf (totalSentPackets c) (labelValues k)
             (float64 (unat (delta (SentPackets (lookupAgg (prev c) k)) (SentPackets v))))
      else totalSentPackets c)"
  by (simp add: addTotals_def Let_def)

lemma addTotals_totalSentBytes:
  "totalSentBytes (addTotals ovf k v c) =
     (if 0 < delta (SentBytes (lookupAgg (prev c) k)) (SentBytes v)
      then counterAdd ovf (totalSentBytes c) (labelValues k)
             (float64 (unat (delta (SentBytes (lookupAgg (prev c) k)) (SentBytes v))))
      else totalSentBytes c)"
  by (simp add: addTotals_def Let_def)

lemma addTotals_totalReplyPackets:
  "totalReplyPackets (addTotals ovf k v c) =
     (if 0 < delta (ReplyPackets (lookupAgg (prev c) k)) (ReplyPackets v)
      then counterAdd ovf (totalReplyPackets c) (labelValues k)
             (float64 (unat (delta (ReplyPackets (lookupAgg (prev c) k)) (ReplyPackets v))))
      else totalReplyPackets c)"
  by (simp add: addTotals_def Let_def)

lemma addTotals_totalReplyBytes:
  "totalReplyBytes (addTotals ovf k v c) =
     (if 0 < delta (ReplyBytes (lookupAgg (prev c) k)) (ReplyBytes v)
      then counterAdd ovf (totalReplyBytes c) (labelValues k)
             (float64 (unat (delta (ReplyBytes (lookupAgg (prev c) k)) (ReplyBytes v))))
      else totalReplyBytes c)"
  by (simp add: addTotals_def Let_def)

text \<open>The totals and the seen keys after \<open>applySnapshot\<close> are those after its second
  loop, which starts from the totals, the seen keys and the \<open>prev\<close> of the state given.\<close>

lemma applySnapshot_totals:
  "totalSentPackets (applySnapshot ovf c cur) =
     totalSentPackets (fold (\<lambda>(k, v). addTotals ovf k v) cur
        (fold (\<lambda>(k, v). setGauges k v) cur (resetGauges c)))"
  "totalSentBytes (applySnapshot ovf c cur) =
     totalSentBytes (fold (\<lambda>(k, v). addTotals ovf k v) cur
        (fold (\<lambda>(k, v). setGauges k v) cur (resetGauges c)))"
  "totalReplyPackets (applySnapshot ovf c cur) =
     totalReplyPackets (fold (\<lambda>(k, v). addTotals ovf k v) cur
        (fold (\<lambda>(k, v). setGauges k v) cur (resetGauges c)))"
  "totalReplyBytes (applySnapshot ovf c cur) =
     totalReplyBytes (fold (\<lambda>(k, v). addTotals ovf k v) cur
        (fold (\<lambda>(k, v). setGauges k v) cur (resetGauges c)))"
  "seen (applySnapshot ovf c cur) =
     seen (fold (\<lambda>(k, v). addTotals ovf k v) cur
        (fold (\<lambda>(k, v). setGauges k v) cur (resetGauges c)))"
  by (simp_all add: applySnapshot_def Let_def fold_storePrev_keeps fold_dropAbsent_keeps)

lemma afterGauges:
  "prev (fold (\<lambda>(k, v). setGauges k v) cur (resetGauges c)) = prev c"
  "seen (fold (\<lambda>(k, v). setGauges k v) cur (resetGauges c)) = seen c"
  "totalSentPackets (fold (\<lambda>(k, v). setGauges k v) cur (resetGauges c)) = totalSentPackets c"
  "totalSentBytes (fold (\<lambda>(k, v). setGauges k v) cur (resetGauges c)) = totalSentBytes c"
  "totalReplyPackets (fold (\<lambda>(k, v). setGauges k v) cur (resetGauges c)) = totalReplyPackets c"
  "totalReplyBytes (fold (\<lambda>(k, v). setGauges k v) cur (resetGauges c)) = totalReplyBytes c"
  by (simp_all add: fold_setGauges_keeps resetGauges_def)

text \<open>The total of a key after the second loop, when the keys of the snapshot are
  distinct: only the pass for that key touches its series.\<close>

lemma counterAdd_other: "l \<noteq> ls \<Longrightarrow> counterAdd ovf m l d ls = m ls"
  by (simp add: counterAdd_def)

lemma counterAdd_same:
  "counterAdd ovf m ls d ls = Some (counterAddTo ovf d (withLabelValues m ls))"
  by (simp add: counterAdd_def)

lemma addTotals_other:
  "k \<noteq> K \<Longrightarrow> totalSentPackets (addTotals ovf k v c) (labelValues K) = totalSentPackets c (labelValues K)"
  "k \<noteq> K \<Longrightarrow> totalSentBytes (addTotals ovf k v c) (labelValues K) = totalSentBytes c (labelValues K)"
  "k \<noteq> K \<Longrightarrow> totalReplyPackets (addTotals ovf k v c) (labelValues K) = totalReplyPackets c (labelValues K)"
  "k \<noteq> K \<Longrightarrow> totalReplyBytes (addTotals ovf k v c) (labelValues K) = totalReplyBytes c (labelValues K)"
  by (simp_all add: addTotals_totalSentPackets addTotals_totalSentBytes
        addTotals_totalReplyPackets addTotals_totalReplyBytes counterAdd_other labelValues_inj)

lemma addTotals_same:
  "totalSentPackets (addTotals ovf K v c) (labelValues K) =
     stepTotal ovf (SentPackets (lookupAgg (prev c) K)) (SentPackets v) (totalSentPackets c) (labelValues K)"
  "totalSentBytes (addTotals ovf K v c) (labelValues K) =
     stepTotal ovf (SentBytes (lookupAgg (prev c) K)) (SentBytes v) (totalSentBytes c) (labelValues K)"
  "totalReplyPackets (addTotals ovf K v c) (labelValues K) =
     stepTotal ovf (ReplyPackets (lookupAgg (prev c) K)) (ReplyPackets v) (totalReplyPackets c) (labelValues K)"
  "totalReplyBytes (addTotals ovf K v c) (labelValues K) =
     stepTotal ovf (ReplyBytes (lookupAgg (prev c) K)) (ReplyBytes v) (totalReplyBytes c) (labelValues K)"
  by (simp_all add: addTotals_totalSentPackets addTotals_totalSentBytes
        addTotals_totalReplyPackets addTotals_totalReplyBytes counterAdd_same stepTotal_def)

lemma stepTotal_cong:
  "m ls = m' ls \<Longrightarrow> stepTotal ovf p q m ls = stepTotal ovf p q m' ls"
  by (simp add: stepTotal_def withLabelValues_def)

lemma fold_addTotals_at_SP:
  "distinct (map fst cur) \<Longrightarrow>
   totalSentPackets (fold (\<lambda>(k, v). addTotals ovf k v) cur c) (labelValues K) =
     (case map_of cur K of
        None \<Rightarrow> totalSentPackets c (labelValues K)
      | Some v \<Rightarrow> stepTotal ovf (SentPackets (lookupAgg (prev c) K)) (SentPackets v)
                    (totalSentPackets c) (labelValues K))"
proof (induction cur arbitrary: c)
  case Nil
  show ?case by simp
next
  case (Cons kv cur)
  obtain k v where kv: "kv = (k, v)" by (cases kv)
  from Cons.prems have d: "distinct (map fst cur)" and nk: "k \<notin> fst ` set cur"
    by (simp_all add: kv)
  note IH = Cons.IH [OF d, of "addTotals ovf k v c"]
  show ?case
  proof (cases "k = K")
    case True
    with nk have "map_of cur K = None" by (simp add: map_of_eq_None_iff)
    with IH True show ?thesis by (simp add: kv addTotals_same)
  next
    case False
    have "stepTotal ovf p q (totalSentPackets (addTotals ovf k v c)) (labelValues K)
            = stepTotal ovf p q (totalSentPackets c) (labelValues K)" for p q
      by (rule stepTotal_cong) (simp add: addTotals_other False)
    with IH False show ?thesis
      by (simp add: kv addTotals_other addTotals_prev split: option.splits)
  qed
qed

lemma fold_addTotals_at_SB:
  "distinct (map fst cur) \<Longrightarrow>
   totalSentBytes (fold (\<lambda>(k, v). addTotals ovf k v) cur c) (labelValues K) =
     (case map_of cur K of
        None \<Rightarrow> totalSentBytes c (labelValues K)
      | Some v \<Rightarrow> stepTotal ovf (SentBytes (lookupAgg (prev c) K)) (SentBytes v)
                    (totalSentBytes c) (labelValues K))"
proof (induction cur arbitrary: c)
  case Nil
  show ?case by simp
next
  case (Cons kv cur)
  obtain k v where kv: "kv = (k, v)" by (cases kv)
  from Cons.prems have d: "distinct (map fst cur)" and nk: "k \<notin> fst ` set cur"
    by (simp_all add: kv)
  note IH = Cons.IH [OF d, of "addTotals ovf k v c"]
  show ?case
  proof (cases "k = K")
    case True
    with nk have "map_of cur K = None" by (simp add: map_of_eq_None_iff)
    with IH True show ?thesis by (simp add: kv addTotals_same)
  next
    case False
    have "stepTotal ovf p q (totalSentBytes (addTotals ovf k v c)) (labelValues K)
            = stepTotal ovf p q (totalSentBytes c) (labelValues K)" for p q
      by (rule stepTotal_cong) (simp add: addTotals_other False)
    with IH False show ?thesis
      by (simp add: kv addTotals_other addTotals_prev split: option.splits)
  qed
qed

lemma fold_addTotals_at_RP:
  "distinct (map fst cur) \<Longrightarrow>
   totalReplyPackets (fold (\<lambda>(k, v). addTotals ovf k v) cur c) (labelValues K) =
     (case map_of cur K of
        None \<Rightarrow> totalReplyPackets c (labelValues K)
      | Some v \<Rightarrow> stepTotal ovf (ReplyPackets (lookupAgg (prev c) K)) (ReplyPackets v)
                    (totalReplyPackets c) (labelValues K))"
proof (induction cur arbitrary: c)
  case Nil
  show ?case by simp
next
  case (Cons kv cur)
  obtain k v where kv: "kv = (k, v)" by (cases kv)
  from Cons.prems have d: "distinct (map fst cur)" and nk: "k \<notin> fst ` set cur"
    by (simp_all add: kv)
  note IH = Cons.IH [OF d, of "addTotals ovf k v c"]
  show ?case
  proof (cases "k = K")
    case True
    with nk have "map_of cur K = None" by (simp add: map_of_eq_None_iff)
    with IH True show ?thesis by (simp add: kv addTotals_same)
  next
    case False
    have "stepTotal ovf p q (totalReplyPackets (addTotals ovf k v c)) (labelValues K)
            = stepTotal ovf p q (totalReplyPackets c) (labelValues K)" for p q
      by (rule stepTotal_cong) (simp add: addTotals_other False)
    with IH False show ?thesis
      by (simp add: kv addTotals_other addTotals_prev split: option.splits)
  qed
qed

lemma fold_addTotals_at_RB:
  "distinct (map fst cur) \<Longrightarrow>
   totalReplyBytes (fold (\<lambda>(k, v). addTotals ovf k v) cur c) (labelValues K) =
     (case map_of cur K of
        None \<Rightarrow> totalReplyBytes c (labelValues K)
      | Some v \<Rightarrow> stepTotal ovf (ReplyBytes (lookupAgg (prev c) K)) (ReplyBytes v)
                    (totalReplyBytes c) (labelValues K))"
proof (induction cur arbitrary: c)
  case Nil
  show ?case by simp
next
  case (Cons kv cur)
  obtain k v where kv: "kv = (k, v)" by (cases kv)
  from Cons.prems have d: "distinct (map fst cur)" and nk: "k \<notin> fst ` set cur"
    by (simp_all add: kv)
  note IH = Cons.IH [OF d, of "addTotals ovf k v c"]
  show ?case
  proof (cases "k = K")
    case True
    with nk have "map_of cur K = None" by (simp add: map_of_eq_None_iff)
    with IH True show ?thesis by (simp add: kv addTotals_same)
  next
    case False
    have "stepTotal ovf p q (totalReplyBytes (addTotals ovf k v c)) (labelValues K)
            = stepTotal ovf p q (totalReplyBytes c) (labelValues K)" for p q
      by (rule stepTotal_cong) (simp add: addTotals_other False)
    with IH False show ?thesis
      by (simp add: kv addTotals_other addTotals_prev split: option.splits)
  qed
qed

lemma applySnapshot_at:
  assumes "distinct (map fst cur)"
  shows "totalSentPackets (applySnapshot ovf c cur) (labelValues K) =
     (case map_of cur K of
        None \<Rightarrow> totalSentPackets c (labelValues K)
      | Some v \<Rightarrow> stepTotal ovf (SentPackets (lookupAgg (prev c) K)) (SentPackets v)
                    (totalSentPackets c) (labelValues K))"
    and "totalSentBytes (applySnapshot ovf c cur) (labelValues K) =
     (case map_of cur K of
        None \<Rightarrow> totalSentBytes c (labelValues K)
      | Some v \<Rightarrow> stepTotal ovf (SentBytes (lookupAgg (prev c) K)) (SentBytes v)
                    (totalSentBytes c) (labelValues K))"
    and "totalReplyPackets (applySnapshot ovf c cur) (labelValues K) =
     (case map_of cur K of
        None \<Rightarrow> totalReplyPackets c (labelValues K)
      | Some v \<Rightarrow> stepTotal ovf (ReplyPackets (lookupAgg (prev c) K)) (ReplyPackets v)
                    (totalReplyPackets c) (labelValues K))"
    and "totalReplyBytes (applySnapshot ovf c cur) (labelValues K) =
     (case map_of cur K of
        None \<Rightarrow> totalReplyBytes c (labelValues K)
      | Some v \<Rightarrow> stepTotal ovf (ReplyBytes (lookupAgg (prev c) K)) (ReplyBytes v)
                    (totalReplyBytes c) (labelValues K))"
  by (simp_all add: applySnapshot_totals fold_addTotals_at_SP [OF assms] fold_addTotals_at_SB [OF assms]
        fold_addTotals_at_RP [OF assms] fold_addTotals_at_RB [OF assms] afterGauges
        cong: option.case_cong)

text \<open>The previous snapshot after a step.\<close>

lemma fold_dropAbsent_prev:
  "map_of (prev (fold (dropAbsent cur) ks c)) k =
     (if k \<in> set ks \<and> map_of cur k = None then None else map_of (prev c) k)"
  by (induction ks arbitrary: c) (auto simp: dropAbsent_def delete_conv')

lemma fold_storePrev_prev:
  "distinct (map fst cur) \<Longrightarrow>
   map_of (prev (fold (\<lambda>(k, v). storePrev k v) cur c)) k =
     (case map_of cur k of None \<Rightarrow> map_of (prev c) k | Some v \<Rightarrow> Some v)"
proof (induction cur arbitrary: c)
  case Nil
  show ?case by simp
next
  case (Cons kv cur)
  obtain k' v' where kv: "kv = (k', v')" by (cases kv)
  from Cons.prems have d: "distinct (map fst cur)" and nk: "k' \<notin> fst ` set cur"
    by (simp_all add: kv)
  from nk have n: "map_of cur k' = None" by (simp add: map_of_eq_None_iff)
  show ?case
    using Cons.IH [OF d, of "storePrev k' v' c"] n
    by (auto simp: kv storePrev_def update_conv' split: option.splits)
qed

lemma applySnapshot_prev_unfold:
  "prev (applySnapshot ovf c cur) =
     prev (fold (\<lambda>(k, v). storePrev k v) cur
       (fold (dropAbsent cur)
          (map fst (prev (fold (\<lambda>(k, v). addTotals ovf k v) cur
                      (fold (\<lambda>(k, v). setGauges k v) cur (resetGauges c)))))
          (fold (\<lambda>(k, v). addTotals ovf k v) cur
             (fold (\<lambda>(k, v). setGauges k v) cur (resetGauges c)))))"
  by (simp add: applySnapshot_def Let_def)

lemma applySnapshot_prev:
  assumes "distinct (map fst cur)"
  shows "map_of (prev (applySnapshot ovf c cur)) = map_of cur"
proof
  fix k
  let ?c2 = "fold (\<lambda>(k, v). addTotals ovf k v) cur (fold (\<lambda>(k, v). setGauges k v) cur (resetGauges c))"
  show "map_of (prev (applySnapshot ovf c cur)) k = map_of cur k"
  proof (cases "map_of cur k")
    case (Some v)
    then show ?thesis
      by (simp add: applySnapshot_prev_unfold fold_storePrev_prev [OF assms])
  next
    case None
    have "k \<notin> fst ` set (prev ?c2) \<Longrightarrow> map_of (prev ?c2) k = None"
      by (simp add: map_of_eq_None_iff)
    with None show ?thesis
      by (auto simp: applySnapshot_prev_unfold fold_storePrev_prev [OF assms] fold_dropAbsent_prev)
  qed
qed

lemma applySnapshot_lookup:
  "distinct (map fst cur) \<Longrightarrow> lookupAgg (prev (applySnapshot ovf c cur)) k = lookupAgg cur k"
  by (simp add: lookupAgg_def applySnapshot_prev)

lemma applySnapshot_seen: "seen (applySnapshot ovf c cur) = seen c \<union> fst ` set cur"
  by (simp add: applySnapshot_totals fold_addTotals_seen afterGauges)

text \<open>The keys of the previous snapshot after a step, whatever the order and the
  repetitions of the list given.\<close>

lemma keys_fold_storePrev:
  "fst ` set (prev (fold (\<lambda>(k, v). storePrev k v) cur c)) = fst ` set (prev c) \<union> fst ` set cur"
proof (induction cur arbitrary: c)
  case Nil
  show ?case by simp
next
  case (Cons kv cur)
  obtain k v where kv: "kv = (k, v)" by (cases kv)
  have "fst ` set (prev (storePrev k v c)) = insert k (fst ` set (prev c))"
    by (simp add: storePrev_def dom_update)
  with Cons.IH [of "storePrev k v c"] show ?case
    by (simp add: kv)
qed

lemma keys_fold_dropAbsent:
  "k \<in> fst ` set (prev (fold (dropAbsent cur) (map fst (prev c)) c)) \<Longrightarrow> k \<in> fst ` set cur"
proof -
  assume "k \<in> fst ` set (prev (fold (dropAbsent cur) (map fst (prev c)) c))"
  then have "map_of (prev (fold (dropAbsent cur) (map fst (prev c)) c)) k \<noteq> None"
    by (simp add: map_of_eq_None_iff)
  then have a: "map_of (prev c) k \<noteq> None"
    and b: "\<not> (k \<in> set (map fst (prev c)) \<and> map_of cur k = None)"
    by (simp_all add: fold_dropAbsent_prev split: if_splits)
  from a have "k \<in> fst ` set (prev c)" by (simp add: map_of_eq_None_iff)
  with b have "map_of cur k \<noteq> None" by simp
  then show ?thesis by (simp add: map_of_eq_None_iff)
qed

lemma applySnapshot_keys: "fst ` set (prev (applySnapshot ovf c cur)) = fst ` set cur"
  using keys_fold_dropAbsent [of _ cur]
  by (auto simp: applySnapshot_prev_unfold keys_fold_storePrev)

text \<open>While the deltas of a key fit its totals, a step does not lower the value
  published for the key, and neither does a sequence of steps.\<close>

lemma counterValue_cong: "m ls = m' ls \<Longrightarrow> counterValue m ls = counterValue m' ls"
  by (simp add: counterValue_def withLabelValues_def)

lemma stepTotal_fits:
  assumes "m' ls = stepTotal ovf p q m ls" and "addFits (withLabelValues m ls) (delta p q)"
  shows "f64_le (counterValue m ls) (counterValue m' ls)"
proof (cases "0 < delta p q")
  case True
  with assms(1) have "counterValue m' ls
      = counterGet (counterAddTo ovf (float64 (unat (delta p q))) (withLabelValues m ls))"
    by (simp add: stepTotal_def counterValue_Some)
  with counterAddTo_fits [OF assms(2), of ovf] show ?thesis
    by (simp add: counterValue_def)
next
  case False
  with assms(1) have "m' ls = m ls" by (simp add: stepTotal_def)
  then have "counterValue m' ls = counterValue m ls" by (rule counterValue_cong)
  then show ?thesis by (simp add: f64_le_refl)
qed

lemma applySnapshot_fits:
  assumes "distinct (map fst cur)" and "stepFits c cur K"
  shows "f64_le (counterValue (totalSentPackets c) (labelValues K))
           (counterValue (totalSentPackets (applySnapshot ovf c cur)) (labelValues K))
       \<and> f64_le (counterValue (totalSentBytes c) (labelValues K))
           (counterValue (totalSentBytes (applySnapshot ovf c cur)) (labelValues K))
       \<and> f64_le (counterValue (totalReplyPackets c) (labelValues K))
           (counterValue (totalReplyPackets (applySnapshot ovf c cur)) (labelValues K))
       \<and> f64_le (counterValue (totalReplyBytes c) (labelValues K))
           (counterValue (totalReplyBytes (applySnapshot ovf c cur)) (labelValues K))"
proof (cases "map_of cur K")
  case None
  with applySnapshot_at [OF assms(1), of ovf c K]
  have "totalSentPackets (applySnapshot ovf c cur) (labelValues K) = totalSentPackets c (labelValues K)"
    "totalSentBytes (applySnapshot ovf c cur) (labelValues K) = totalSentBytes c (labelValues K)"
    "totalReplyPackets (applySnapshot ovf c cur) (labelValues K) = totalReplyPackets c (labelValues K)"
    "totalReplyBytes (applySnapshot ovf c cur) (labelValues K) = totalReplyBytes c (labelValues K)"
    by simp_all
  then show ?thesis
    by (simp add: counterValue_def withLabelValues_def f64_le_refl)
next
  case (Some v)
  with applySnapshot_at [OF assms(1), of ovf c K]
  have e: "totalSentPackets (applySnapshot ovf c cur) (labelValues K)
        = stepTotal ovf (SentPackets (lookupAgg (prev c) K)) (SentPackets v)
            (totalSentPackets c) (labelValues K)"
    "totalSentBytes (applySnapshot ovf c cur) (labelValues K)
        = stepTotal ovf (SentBytes (lookupAgg (prev c) K)) (SentBytes v)
            (totalSentBytes c) (labelValues K)"
    "totalReplyPackets (applySnapshot ovf c cur) (labelValues K)
        = stepTotal ovf (ReplyPackets (lookupAgg (prev c) K)) (ReplyPackets v)
            (totalReplyPackets c) (labelValues K)"
    "totalReplyBytes (applySnapshot ovf c cur) (labelValues K)
        = stepTotal ovf (ReplyBytes (lookupAgg (prev c) K)) (ReplyBytes v)
            (totalReplyBytes c) (labelValues K)"
    by simp_all
  from assms(2) Some have f:
    "addFits (withLabelValues (totalSentPackets c) (labelValues K))
       (delta (SentPackets (lookupAgg (prev c) K)) (SentPackets v))"
    "addFits (withLabelValues (totalSentBytes c) (labelValues K))
       (delta (SentBytes (lookupAgg (prev c) K)) (SentBytes v))"
    "addFits (withLabelValues (totalReplyPackets c) (labelValues K))
       (delta (ReplyPackets (lookupAgg (prev c) K)) (ReplyPackets v))"
    "addFits (withLabelValues (totalReplyBytes c) (labelValues K))
       (delta (ReplyBytes (lookupAgg (prev c) K)) (ReplyBytes v))"
    by (simp_all add: stepFits_def)
  show ?thesis
    using stepTotal_fits [where m' = "totalSentPackets (applySnapshot ovf c cur)"
          and ls = "labelValues K", OF e(1) f(1)]
      stepTotal_fits [where m' = "totalSentBytes (applySnapshot ovf c cur)"
          and ls = "labelValues K", OF e(2) f(2)]
      stepTotal_fits [where m' = "totalReplyPackets (applySnapshot ovf c cur)"
          and ls = "labelValues K", OF e(3) f(3)]
      stepTotal_fits [where m' = "totalReplyBytes (applySnapshot ovf c cur)"
          and ls = "labelValues K", OF e(4) f(4)]
    by simp
qed

lemma runFits_mono:
  "runFits ovf c ys K \<Longrightarrow>
   f64_le (counterValue (totalSentPackets c) (labelValues K))
     (counterValue (totalSentPackets (foldl (applySnapshot ovf) c ys)) (labelValues K))
   \<and> f64_le (counterValue (totalSentBytes c) (labelValues K))
     (counterValue (totalSentBytes (foldl (applySnapshot ovf) c ys)) (labelValues K))
   \<and> f64_le (counterValue (totalReplyPackets c) (labelValues K))
     (counterValue (totalReplyPackets (foldl (applySnapshot ovf) c ys)) (labelValues K))
   \<and> f64_le (counterValue (totalReplyBytes c) (labelValues K))
     (counterValue (totalReplyBytes (foldl (applySnapshot ovf) c ys)) (labelValues K))"
proof (induction ys arbitrary: c)
  case Nil
  show ?case by (simp add: f64_le_refl)
next
  case (Cons y ys)
  from Cons.prems have d: "distinct (map fst y)" and s: "stepFits c y K"
    and r: "runFits ovf (applySnapshot ovf c y) ys K" by simp_all
  show ?case
    using Cons.IH [OF r] applySnapshot_fits [OF d s, of ovf]
    by (auto intro: f64_le_trans)
qed

text \<open>A step either leaves the series of a key as it was or gives it one \<open>Add\<close> of a
  delta that is positive.\<close>

lemma stepTotal_touch:
  "stepTotal ovf p q m ls = m ls
   \<or> (0 < delta p q
       \<and> stepTotal ovf p q m ls
           = Some (counterAddTo ovf (float64 (unat (delta p q))) (withLabelValues m ls)))"
  by (simp add: stepTotal_def)

text \<open>Within \<open>2 ^ 53\<close> the published value is exact.\<close>

lemma round_below: "roundF64 x < 2 ^ 53 \<Longrightarrow> roundF64 x = x"
proof -
  assume a: "roundF64 x < 2 ^ 53"
  have "x < 2 ^ 53"
  proof (rule ccontr)
    assume "\<not> x < 2 ^ 53"
    then have "2 ^ 53 \<le> x" by simp
    then have "roundF64 (2 ^ 53) \<le> roundF64 x" by (rule round_mono)
    moreover have "roundF64 (2 ^ 53) = 2 ^ 53" by (rule round_small) simp
    ultimately show False using a by simp
  qed
  then show ?thesis by (simp add: round_small)
qed

lemma counterGet_exact:
  assumes g: "counterGet cnt = Finite t" and b: "t + unat d \<le> 2 ^ 53"
  shows "counterGet (cnt\<lparr>valInt := valInt cnt + d\<rparr>) = Finite (t + unat d)"
proof (cases "d = 0")
  case True
  with g show ?thesis by simp
next
  case False
  then have dp: "0 < unat d" by (simp add: unat_gt_0)
  with b have t: "t < 2 ^ 53" by simp
  obtain f where f: "valBits cnt = Finite f"
    using g by (cases "valBits cnt") (simp_all add: counterGet_def)
  from g f have "float64 (f + roundF64 (unat (valInt cnt))) = Finite t"
    by (simp add: counterGet_def float64_unat)
  then have "roundF64 (f + roundF64 (unat (valInt cnt))) = t"
    by (simp add: float64_def split: if_splits)
  with t have e: "f + roundF64 (unat (valInt cnt)) = t"
    using round_below [of "f + roundF64 (unat (valInt cnt))"] by simp
  with t have "roundF64 (unat (valInt cnt)) < 2 ^ 53" by simp
  then have i: "roundF64 (unat (valInt cnt)) = unat (valInt cnt)" by (rule round_below)
  with e have ft: "f + unat (valInt cnt) = t" by simp
  with b have s: "unat (valInt cnt) + unat d \<le> 2 ^ 53" by simp
  moreover have "(2::nat) ^ 53 < 2 ^ 64" by simp
  ultimately have "unat (valInt cnt) + unat d < 2 ^ 64" by (rule le_less_trans)
  then have u: "unat (valInt cnt + d) = unat (valInt cnt) + unat d"
    by (simp add: unat_word_ariths)
  have "f + (unat (valInt cnt) + unat d) \<le> 2 ^ 53" using ft b by simp
  then show ?thesis
    using s ft by (simp add: counterGet_def f u float64_small)
qed

section \<open>The aggregator: what \<open>parseAndAggregate\<close> returns\<close>

lemma TrimSpace_Nil: "TrimSpace [] = []"
  by (simp add: TrimSpace_def)

lemma ParseLine_Nil: "ParseLine [] = None"
  by (simp add: ParseLine_def TrimSpace_Nil)

lemma aggLoop_entries:
  "aggLoop ts (out, any) =
     (fold addEntry (List.map_filter (\<lambda>t. ParseLine (TrimSpace t)) ts) out,
      any \<or> List.map_filter (\<lambda>t. ParseLine (TrimSpace t)) ts \<noteq> [])"
proof (induction ts arbitrary: out any)
  case Nil
  show ?case by simp
next
  case (Cons t ts)
  show ?case
    using ParseLine_Nil
    by (cases "ParseLine (TrimSpace t)") (auto simp: Cons.IH)
qed

lemma parseAndAggregate_Inr:
  "parseAndAggregate raw = Inr out \<Longrightarrow>
     out = fold addEntry (parsedEntries raw) [] \<and> parsedEntries raw \<noteq> [] \<and> scanErr raw = None"
  by (auto simp: parseAndAggregate_def aggLoop_entries parsedEntries_def
           split: option.splits if_splits)

lemma addEntry_plus:
  "addEntry e out = AList.update (buildKey e) (plusEntry (lookupAgg out (buildKey e)) e) out"
  by (simp add: addEntry_def plusEntry_def Let_def)

lemma map_of_addEntry:
  "map_of (addEntry e out) k =
     (if buildKey e = k then Some (plusEntry (lookupAgg out k) e) else map_of out k)"
  by (simp add: addEntry_plus update_conv')

lemma distinct_addEntry: "distinct (map fst out) \<Longrightarrow> distinct (map fst (addEntry e out))"
  by (simp add: addEntry_plus distinct_update)

lemma distinct_fold_addEntry:
  "distinct (map fst out) \<Longrightarrow> distinct (map fst (fold addEntry es out))"
  by (induction es arbitrary: out) (simp_all add: distinct_addEntry)

text \<open>The map returned has distinct keys, as a Go map has.\<close>

lemma parseAndAggregate_distinct:
  "parseAndAggregate raw = Inr out \<Longrightarrow> distinct (map fst out)"
  using parseAndAggregate_Inr [of raw out] distinct_fold_addEntry [of "[]" "parsedEntries raw"]
  by simp

lemma map_of_fold_addEntry:
  "map_of (fold addEntry es out) k =
     (if filter (\<lambda>e. buildKey e = k) es = [] then map_of out k
      else Some (foldl plusEntry (lookupAgg out k) (filter (\<lambda>e. buildKey e = k) es)))"
proof (induction es arbitrary: out)
  case Nil
  show ?case by simp
next
  case (Cons e es)
  show ?case
    by (simp add: Cons.IH map_of_addEntry lookupAgg_def)
qed

lemma foldl_plusEntry:
  "foldl plusEntry v es =
     \<lparr>SentPackets = SentPackets v + SentPackets (sumAgg es),
      SentBytes = SentBytes v + SentBytes (sumAgg es),
      ReplyPackets = ReplyPackets v + ReplyPackets (sumAgg es),
      ReplyBytes = ReplyBytes v + ReplyBytes (sumAgg es)\<rparr>"
  by (induction es arbitrary: v) (simp_all add: sumAgg_def plusEntry_def add.assoc)

lemma foldl_plusEntry_zero: "foldl plusEntry zeroAgg es = sumAgg es"
  by (simp add: foldl_plusEntry zeroAgg_def)

lemma aggregate_sum:
  "parseAndAggregate raw = Inr out \<Longrightarrow>
   map_of out k =
     (if filter (\<lambda>e. buildKey e = k) (parsedEntries raw) = [] then None
      else Some (sumAgg (filter (\<lambda>e. buildKey e = k) (parsedEntries raw))))"
  using parseAndAggregate_Inr [of raw out]
  by (simp add: map_of_fold_addEntry lookupAgg_def foldl_plusEntry_zero)

lemma two_records:
  "parseAndAggregate raw = Inr out \<Longrightarrow> parsedEntries raw = [e1, e2] \<Longrightarrow>
   buildKey e1 = buildKey e2 \<Longrightarrow> out = [(buildKey e1, sumAgg [e1, e2])]"
  using parseAndAggregate_Inr [of raw out]
  by (simp add: addEntry_def sumAgg_def lookupAgg_def zeroAgg_def Let_def)

lemma aggLoop_rejected:
  "\<forall>t \<in> set ts. ParseLine (TrimSpace t) = None \<Longrightarrow> aggLoop ts st = st"
  by (induction ts) (cases st, simp)+

section \<open>The concrete inputs, evaluated\<close>

lemma splitLines_line:
  "CHR 0x0A \<notin> set l \<Longrightarrow> splitLines acc (l @ CHR 0x0A # rest) = (acc @ l) # splitLines [] rest"
  by (induction l arbitrary: acc) auto

lemma ex1_nl: "CHR 0x0A \<notin> set exampleLine1"
  unfolding exampleLine1_def by code_simp

lemma ex2_nl: "CHR 0x0A \<notin> set exampleLine2"
  unfolding exampleLine2_def by code_simp

lemma ex1_len: "length exampleLine1 < maxTokenSize"
  unfolding exampleLine1_def maxTokenSize_def by simp

lemma ex2_len: "length exampleLine2 < maxTokenSize"
  unfolding exampleLine2_def maxTokenSize_def by simp

lemma ex1_cr: "dropCR exampleLine1 = exampleLine1"
  unfolding exampleLine1_def dropCR_def by simp

lemma ex2_cr: "dropCR exampleLine2 = exampleLine2"
  unfolding exampleLine2_def dropCR_def by simp

lemma ex1_trim: "TrimSpace exampleLine1 = exampleLine1"
  unfolding exampleLine1_def by code_simp

lemma ex2_trim: "TrimSpace exampleLine2 = exampleLine2"
  unfolding exampleLine2_def by code_simp

lemma ex1_ne: "exampleLine1 \<noteq> []"
  unfolding exampleLine1_def by simp

lemma ex2_ne: "exampleLine2 \<noteq> []"
  unfolding exampleLine2_def by simp

lemma ex1_fields:
  "Fields exampleLine1 =
     [''ipv4'', ''2'', ''tcp'', ''6'', ''431999'', ''ESTABLISHED'', ''src=10.0.0.5'',
      ''dst=93.184.216.34'', ''sport=51514'', ''dport=443'', ''packets=10'', ''bytes=1000'',
      ''src=93.184.216.34'', ''dst=10.0.0.5'', ''sport=443'', ''dport=51514'', ''packets=8'',
      ''bytes=900'']"
  unfolding exampleLine1_def by code_simp

lemma ex2_fields:
  "Fields exampleLine2 =
     [''ipv4'', ''2'', ''tcp'', ''6'', ''431999'', ''ESTABLISHED'', ''src=10.0.0.5'',
      ''dst=93.184.216.34'', ''sport=51520'', ''dport=443'', ''packets=10'', ''bytes=1000'',
      ''src=93.184.216.34'', ''dst=10.0.0.5'', ''sport=443'', ''dport=51514'', ''packets=8'',
      ''bytes=900'']"
  unfolding exampleLine2_def by code_simp

lemma ex_collect:
  "fold collectField
     [''ipv4'', ''2'', ''tcp'', ''6'', ''431999'', ''ESTABLISHED'', ''src=10.0.0.5'',
      ''dst=93.184.216.34'', ''sport='' @ sp, ''dport=443'', ''packets=10'', ''bytes=1000'',
      ''src=93.184.216.34'', ''dst=10.0.0.5'', ''sport=443'', ''dport=51514'', ''packets=8'',
      ''bytes=900''] noOccurrences
   = \<lparr>srcs = [''10.0.0.5'', ''93.184.216.34''], dsts = [''93.184.216.34'', ''10.0.0.5''],
      sports = [sp, ''443''], dports = [''443'', ''51514''], packets = [10, 8],
      bytes = [1000, 900]\<rparr>"
  by (simp add: collectField_def Cut_def noOccurrences_def parseUint64_def ParseUint_def
        digitOf_def Let_def)

lemma ex1_parse: "ParseLine exampleLine1 = Some (exampleEntry ''51514'')"
  using ex_collect [of "''51514''"]
  by (simp add: ParseLine_def ex1_trim ex1_ne ex1_fields Let_def nthOr_def exampleEntry_def)

lemma ex2_parse: "ParseLine exampleLine2 = Some (exampleEntry ''51520'')"
  using ex_collect [of "''51520''"]
  by (simp add: ParseLine_def ex2_trim ex2_ne ex2_fields Let_def nthOr_def exampleEntry_def)

lemma ex_l7: "L7ProtocolFromDPort ''443'' = ''https''"
  by (simp add: L7ProtocolFromDPort_def Atoi_def digitOf_def Let_def)

lemma ex_key: "sp \<noteq> [] \<Longrightarrow> buildKey (exampleEntry sp) = exampleKey"
  by (simp add: buildKey_def exampleEntry_def exampleKey_def HasPorts_def ex_l7 Let_def)

lemma ex_stats:
  "OriginalStats (exampleEntry sp) = \<lparr>Packets = 10, Bytes = 1000\<rparr>"
  "ReplyStats (exampleEntry sp) = \<lparr>Packets = 8, Bytes = 900\<rparr>"
  by (simp_all add: exampleEntry_def)

lemma ex_split:
  "splitLines [] exampleText1 = [exampleLine1]"
  "splitLines [] exampleText2 = [exampleLine1, exampleLine2]"
  using splitLines_line [OF ex1_nl, of "[]" "[]"]
        splitLines_line [OF ex1_nl, of "[]" "exampleLine2 @ [CHR 0x0A]"]
        splitLines_line [OF ex2_nl, of "[]" "[]"]
  by (simp_all add: exampleText1_def exampleText2_def)

lemma ex_add:
  "addEntry (exampleEntry ''51514'') [] =
     [(exampleKey, \<lparr>SentPackets = 10, SentBytes = 1000, ReplyPackets = 8, ReplyBytes = 900\<rparr>)]"
  "addEntry (exampleEntry ''51520'')
     [(exampleKey, \<lparr>SentPackets = 10, SentBytes = 1000, ReplyPackets = 8, ReplyBytes = 900\<rparr>)] =
     [(exampleKey, \<lparr>SentPackets = 20, SentBytes = 2000, ReplyPackets = 16, ReplyBytes = 1800\<rparr>)]"
  by (simp_all add: addEntry_def ex_key ex_stats lookupAgg_def zeroAgg_def Let_def)

lemma aggregate_exampleText1:
  "parseAndAggregate exampleText1 =
     Inr [(exampleKey, \<lparr>SentPackets = 10, SentBytes = 1000, ReplyPackets = 8, ReplyBytes = 900\<rparr>)]"
  by (simp add: parseAndAggregate_def scanTokens_def scanErr_def ex_split ex1_len
        ex1_cr ex1_trim ex1_ne ex1_parse ex_add)

lemma aggregate_exampleText2:
  "parseAndAggregate exampleText2 =
     Inr [(exampleKey, \<lparr>SentPackets = 20, SentBytes = 2000, ReplyPackets = 16, ReplyBytes = 1800\<rparr>)]"
  by (simp add: parseAndAggregate_def scanTokens_def scanErr_def ex_split ex1_len ex2_len
        ex1_cr ex2_cr ex1_trim ex2_trim ex1_ne ex2_ne ex1_parse ex2_parse ex_add)

lemma parsed_exampleText2:
  "parsedEntries exampleText2 = [exampleEntry ''51514'', exampleEntry ''51520'']"
  by (simp add: parsedEntries_def scanTokens_def ex_split ex1_len ex2_len ex1_cr ex2_cr
        ex1_trim ex2_trim ex1_parse ex2_parse)

lemma splitLines_last:
  "CHR 0x0A \<notin> set l \<Longrightarrow> splitLines acc l = (if acc @ l = [] then [] else [acc @ l])"
  by (induction l arbitrary: acc) auto

lemma aggregate_exampleLine1:
  "parseAndAggregate exampleLine1 =
     Inr [(exampleKey, \<lparr>SentPackets = 10, SentBytes = 1000, ReplyPackets = 8, ReplyBytes = 900\<rparr>)]"
  using splitLines_last [OF ex1_nl, of "[]"]
  by (simp add: parseAndAggregate_def scanTokens_def scanErr_def ex1_len
        ex1_cr ex1_trim ex1_ne ex1_parse ex_add)

lemma garbage_split:
  "splitLines [] exampleGarbage = [''# no entries'', [CHR 0x20, CHR 0x20, CHR 0x20, CHR 0x0D], []]"
  by (simp add: exampleGarbage_def)

lemma garbage_tokens:
  "scanTokens exampleGarbage = [''# no entries'', [CHR 0x20, CHR 0x20, CHR 0x20], []]"
  by (simp add: scanTokens_def garbage_split maxTokenSize_def dropCR_def)

lemma garbage_rejected:
  "ParseLine (TrimSpace ''# no entries'') = None"
  "ParseLine (TrimSpace [CHR 0x20, CHR 0x20, CHR 0x20]) = None"
  "ParseLine (TrimSpace []) = None"
  by code_simp+

lemma garbage_fails: "parseAndAggregate exampleGarbage = Inl NoEntries"
  using aggLoop_rejected [of "scanTokens exampleGarbage" "([], False)"]
  by (simp add: parseAndAggregate_def garbage_tokens garbage_rejected scanErr_def garbage_split
        maxTokenSize_def)

lemma keys_ne: "exampleKey \<noteq> otherKey"
  by (simp add: exampleKey_def otherKey_def)

lemma New_simps:
  "prev NewConntrackCollector = []"
  "seen NewConntrackCollector = {}"
  "totalSentPackets NewConntrackCollector ls = None"
  "totalSentBytes NewConntrackCollector ls = None"
  "totalReplyPackets NewConntrackCollector ls = None"
  "totalReplyBytes NewConntrackCollector ls = None"
  by (simp_all add: NewConntrackCollector_def)

lemma delta_examples:
  "delta 0 q = q" "delta 100 40 = 0" "delta 50 10 = 0" "delta 1 100 = 99"
  "delta 18014398509481984 50 = 0"
  by (simp_all add: delta_def)

lemma round_examples:
  "roundF64 99 = 99" "roundF64 100 = 100" "roundF64 50 = 50" "roundF64 10 = 10"
  "roundF64 60 = 60" "roundF64 1 = 1" "roundF64 40 = 40" "roundF64 0 = 0"
  "roundF64 18014398509481984 = 18014398509481984"
  "roundF64 18014398509481994 = 18014398509481992"
  "roundF64 9223372036854775808 = 9223372036854775808"
  by (simp_all add: roundF64_def ulp.simps)

lemma snap_distinct:
  "distinct (map fst snapA)" "distinct (map fst snapB)" "distinct (map fst snapC)"
  by (simp_all add: snapA_def snapB_def snapC_def)

lemma snap_lookup:
  "lookupAgg snapA exampleKey = sentOnly 100 50"
  "lookupAgg snapA otherKey = zeroAgg"
  "lookupAgg snapB exampleKey = zeroAgg"
  "map_of snapA exampleKey = Some (sentOnly 100 50)"
  "map_of snapB exampleKey = None"
  "map_of snapC exampleKey = Some (sentOnly 40 10)"
  using keys_ne
  by (simp_all add: lookupAgg_def snapA_def snapB_def snapC_def)

lemma prev_after:
  "lookupAgg (prev (applySnapshot ovf c snapA)) exampleKey = sentOnly 100 50"
  "lookupAgg (prev (applySnapshot ovf c snapA)) otherKey = zeroAgg"
  "lookupAgg (prev (applySnapshot ovf c snapB)) exampleKey = zeroAgg"
  by (simp_all only: applySnapshot_lookup [OF snap_distinct(1)]
        applySnapshot_lookup [OF snap_distinct(2)] snap_lookup)

text \<open>A step whose delta is a value of float64 adds the delta to the integer part of
  the series.\<close>

lemma stepTotal_exact:
  assumes "roundF64 (unat (delta p q)) = unat (delta p q)"
  shows "stepTotal ovf p q m ls =
     (if 0 < delta p q
      then Some ((withLabelValues m ls)\<lparr>valInt := valInt (withLabelValues m ls) + delta p q\<rparr>)
      else m ls)"
proof -
  have "roundF64 (unat (delta p q)) < 2 ^ 64"
    using assms unsigned_less [of "delta p q"] by simp
  from counterAddTo_int [OF this] assms show ?thesis by (simp add: stepTotal_def)
qed

lemma counterGet_int:
  "counterGet \<lparr>valBits = Finite 0, valInt = i\<rparr> = Finite (roundF64 (unat i))"
proof -
  have "roundF64 (unat i) \<le> 2 ^ 64"
    using unsigned_less [of i] by (intro roundF64_u64) simp
  moreover have "(2::nat) ^ 64 < 2 ^ 1024" by simp
  ultimately have "roundF64 (unat i) < 2 ^ 1024" by (rule le_less_trans)
  then have "float64 (roundF64 (unat i)) = Finite (roundF64 (unat i))"
    by (simp add: float64_def round_idem)
  then show ?thesis by (simp add: counterGet_def float64_unat)
qed

lemma after_snapA:
  "totalSentPackets (applySnapshot ovf NewConntrackCollector snapA) (labelValues exampleKey)
     = Some \<lparr>valBits = Finite 0, valInt = 100\<rparr>"
  "totalSentBytes (applySnapshot ovf NewConntrackCollector snapA) (labelValues exampleKey)
     = Some \<lparr>valBits = Finite 0, valInt = 50\<rparr>"
  by (simp_all add: applySnapshot_at [OF snap_distinct(1)] snap_lookup New_simps stepTotal_exact
        lookupAgg_def zeroAgg_def sentOnly_def delta_examples round_examples
        withLabelValues_def newCounter_def)

lemma after_snapA_snapB:
  "totalSentPackets (applySnapshot ovf (applySnapshot ovf NewConntrackCollector snapA) snapB)
     (labelValues exampleKey) = Some \<lparr>valBits = Finite 0, valInt = 100\<rparr>"
  "totalSentBytes (applySnapshot ovf (applySnapshot ovf NewConntrackCollector snapA) snapB)
     (labelValues exampleKey) = Some \<lparr>valBits = Finite 0, valInt = 50\<rparr>"
  by (simp_all add: applySnapshot_at [OF snap_distinct(2)] snap_lookup after_snapA)

lemma after_snapA_snapC:
  "totalSentPackets (applySnapshot ovf (applySnapshot ovf NewConntrackCollector snapA) snapC)
     (labelValues exampleKey) = Some \<lparr>valBits = Finite 0, valInt = 100\<rparr>"
  "totalSentBytes (applySnapshot ovf (applySnapshot ovf NewConntrackCollector snapA) snapC)
     (labelValues exampleKey) = Some \<lparr>valBits = Finite 0, valInt = 50\<rparr>"
  by (simp_all add: applySnapshot_at [OF snap_distinct(3)] snap_lookup prev_after after_snapA
        stepTotal_def sentOnly_def delta_examples)

lemma after_snapA_snapB_snapC:
  "totalSentBytes
     (applySnapshot ovf (applySnapshot ovf (applySnapshot ovf NewConntrackCollector snapA) snapB)
        snapC)
     (labelValues exampleKey) = Some \<lparr>valBits = Finite 0, valInt = 60\<rparr>"
  by (simp add: applySnapshot_at [OF snap_distinct(3)] snap_lookup prev_after after_snapA_snapB
        stepTotal_exact sentOnly_def zeroAgg_def delta_examples round_examples
        withLabelValues_def)

text \<open>The sequence \<open>snapBig\<close>, \<open>snapA\<close>, \<open>snapB\<close>, \<open>snapC\<close>: the integer part of the series
  of sent bytes is \<open>2 ^ 54\<close> when the key comes back and \<open>2 ^ 54 + 10\<close> after.\<close>

lemma snapBig_distinct: "distinct (map fst snapBig)"
  by (simp add: snapBig_def)

lemma snapBig_lookup:
  "lookupAgg snapBig exampleKey = sentOnly 1 (2 ^ 54)"
  "map_of snapBig exampleKey = Some (sentOnly 1 (2 ^ 54))"
  by (simp_all add: lookupAgg_def snapBig_def)

lemma prev_after_snapBig:
  "lookupAgg (prev (applySnapshot ovf c snapBig)) exampleKey = sentOnly 1 (2 ^ 54)"
  by (simp only: applySnapshot_lookup [OF snapBig_distinct] snapBig_lookup)

lemma after_snapBig:
  "totalSentBytes (applySnapshot ovf NewConntrackCollector snapBig) (labelValues exampleKey)
     = Some \<lparr>valBits = Finite 0, valInt = 2 ^ 54\<rparr>"
  by (simp add: applySnapshot_at [OF snapBig_distinct] snapBig_lookup New_simps stepTotal_exact
        lookupAgg_def zeroAgg_def sentOnly_def delta_examples round_examples
        withLabelValues_def newCounter_def)

lemma after_snapBig_snapA:
  "totalSentBytes (applySnapshot ovf (applySnapshot ovf NewConntrackCollector snapBig) snapA)
     (labelValues exampleKey) = Some \<lparr>valBits = Finite 0, valInt = 2 ^ 54\<rparr>"
  by (simp add: applySnapshot_at [OF snap_distinct(1)] snap_lookup prev_after_snapBig
        after_snapBig stepTotal_def sentOnly_def delta_examples)

lemma after_snapBig_snapA_snapB:
  "totalSentBytes
     (applySnapshot ovf (applySnapshot ovf (applySnapshot ovf NewConntrackCollector snapBig) snapA)
        snapB)
     (labelValues exampleKey) = Some \<lparr>valBits = Finite 0, valInt = 2 ^ 54\<rparr>"
  by (simp add: applySnapshot_at [OF snap_distinct(2)] snap_lookup after_snapBig_snapA)

lemma after_snapBig_snapA_snapB_snapC:
  "totalSentBytes
     (applySnapshot ovf
        (applySnapshot ovf (applySnapshot ovf (applySnapshot ovf NewConntrackCollector snapBig) snapA)
           snapB)
        snapC)
     (labelValues exampleKey) = Some \<lparr>valBits = Finite 0, valInt = 2 ^ 54 + 10\<rparr>"
  by (simp add: applySnapshot_at [OF snap_distinct(3)] snap_lookup prev_after
        after_snapBig_snapA_snapB stepTotal_exact sentOnly_def zeroAgg_def delta_examples
        round_examples withLabelValues_def)

text \<open>The sequence \<open>snapHuge\<close>, \<open>snapB\<close>, \<open>snapHuge\<close>: the integer part of the series of
  sent bytes is \<open>2 ^ 63\<close> after the first and the second step, and 0 after the third.\<close>

lemma snapHuge_distinct: "distinct (map fst snapHuge)"
  by (simp add: snapHuge_def)

lemma snapHuge_lookup: "map_of snapHuge exampleKey = Some (sentOnly 1 (2 ^ 63))"
  by (simp add: snapHuge_def)

lemma after_snapHuge:
  "totalSentBytes (applySnapshot ovf NewConntrackCollector snapHuge) (labelValues exampleKey)
     = Some \<lparr>valBits = Finite 0, valInt = 2 ^ 63\<rparr>"
  by (simp add: applySnapshot_at [OF snapHuge_distinct] snapHuge_lookup New_simps stepTotal_exact
        lookupAgg_def zeroAgg_def sentOnly_def delta_examples round_examples
        withLabelValues_def newCounter_def)

lemma after_snapHuge_snapB:
  "totalSentBytes (applySnapshot ovf (applySnapshot ovf NewConntrackCollector snapHuge) snapB)
     (labelValues exampleKey) = Some \<lparr>valBits = Finite 0, valInt = 2 ^ 63\<rparr>"
  by (simp add: applySnapshot_at [OF snap_distinct(2)] snap_lookup after_snapHuge)

lemma after_snapHuge_snapB_snapHuge:
  "totalSentBytes
     (applySnapshot ovf (applySnapshot ovf (applySnapshot ovf NewConntrackCollector snapHuge) snapB)
        snapHuge)
     (labelValues exampleKey) = Some \<lparr>valBits = Finite 0, valInt = 0\<rparr>"
  by (simp add: applySnapshot_at [OF snapHuge_distinct] snapHuge_lookup prev_after
        after_snapHuge_snapB stepTotal_exact sentOnly_def zeroAgg_def delta_examples
        round_examples withLabelValues_def)

text \<open>What is published for these series, with \<open>2 ^ 54\<close>, \<open>2 ^ 54 + 10\<close>, \<open>2 ^ 54 + 8\<close> and
  \<open>2 ^ 63\<close> written out.\<close>

lemma published_examples:
  "counterGet \<lparr>valBits = Finite 0, valInt = 0\<rparr> = Finite 0"
  "counterGet \<lparr>valBits = Finite 0, valInt = 50\<rparr> = Finite 50"
  "counterGet \<lparr>valBits = Finite 0, valInt = 60\<rparr> = Finite 60"
  "counterGet \<lparr>valBits = Finite 0, valInt = 100\<rparr> = Finite 100"
  by (simp_all add: counterGet_int round_examples)

lemma published_big:
  "counterGet \<lparr>valBits = Finite 0, valInt = 18014398509481984\<rparr> = Finite 18014398509481984"
  "counterGet \<lparr>valBits = Finite 0, valInt = 18014398509481994\<rparr> = Finite 18014398509481992"
  by (simp_all add: counterGet_int round_examples)

lemma published_huge:
  "counterGet \<lparr>valBits = Finite 0, valInt = 9223372036854775808\<rparr>
     = Finite 9223372036854775808"
  by (simp add: counterGet_int round_examples)

lemma unat_less_numeral: "unat (w :: 64 word) < 18446744073709551616"
  using unsigned_less [of w] by simp

section \<open>The claims\<close>

text \<open>
  Claim C1, as the code has it. In a step of \<open>applySnapshot\<close> each of \<open>totalSentPackets\<close>,
  \<open>totalSentBytes\<close>, \<open>totalReplyPackets\<close> and \<open>totalReplyBytes\<close> is, for the series of every
  key, either left as it was or given one \<open>Add\<close> of a delta that is strictly positive:
  the engine never asks for a decrease, also when a counter of the key drops. And the
  value published for the series does not decrease across a sequence of snapshots
  in which every delta of the key fits the 64-bit integer part of its series
  (\<open>runFits\<close>): the value after a prefix of the sequence is at most the value after the
  whole sequence.
\<close>

theorem totals_never_decrease:
  "(distinct (map fst cur) \<longrightarrow>
      (totalSentPackets (applySnapshot ovf c cur) (labelValues K)
         = totalSentPackets c (labelValues K)
       \<or> (\<exists>d :: 64 word. 0 < d \<and> totalSentPackets (applySnapshot ovf c cur) (labelValues K)
             = Some (counterAddTo ovf (float64 (unat d))
                       (withLabelValues (totalSentPackets c) (labelValues K)))))
      \<and> (totalSentBytes (applySnapshot ovf c cur) (labelValues K)
         = totalSentBytes c (labelValues K)
       \<or> (\<exists>d :: 64 word. 0 < d \<and> totalSentBytes (applySnapshot ovf c cur) (labelValues K)
             = Some (counterAddTo ovf (float64 (unat d))
                       (withLabelValues (totalSentBytes c) (labelValues K)))))
      \<and> (totalReplyPackets (applySnapshot ovf c cur) (labelValues K)
         = totalReplyPackets c (labelValues K)
       \<or> (\<exists>d :: 64 word. 0 < d \<and> totalReplyPackets (applySnapshot ovf c cur) (labelValues K)
             = Some (counterAddTo ovf (float64 (unat d))
                       (withLabelValues (totalReplyPackets c) (labelValues K)))))
      \<and> (totalReplyBytes (applySnapshot ovf c cur) (labelValues K)
         = totalReplyBytes c (labelValues K)
       \<or> (\<exists>d :: 64 word. 0 < d \<and> totalReplyBytes (applySnapshot ovf c cur) (labelValues K)
             = Some (counterAddTo ovf (float64 (unat d))
                       (withLabelValues (totalReplyBytes c) (labelValues K))))))
   \<and> (runFits ovf (foldl (applySnapshot ovf) c xs) ys K \<longrightarrow>
        f64_le (counterValue (totalSentPackets (foldl (applySnapshot ovf) c xs)) (labelValues K))
          (counterValue (totalSentPackets (foldl (applySnapshot ovf) c (xs @ ys))) (labelValues K))
        \<and> f64_le (counterValue (totalSentBytes (foldl (applySnapshot ovf) c xs)) (labelValues K))
          (counterValue (totalSentBytes (foldl (applySnapshot ovf) c (xs @ ys))) (labelValues K))
        \<and> f64_le (counterValue (totalReplyPackets (foldl (applySnapshot ovf) c xs)) (labelValues K))
          (counterValue (totalReplyPackets (foldl (applySnapshot ovf) c (xs @ ys))) (labelValues K))
        \<and> f64_le (counterValue (totalReplyBytes (foldl (applySnapshot ovf) c xs)) (labelValues K))
          (counterValue (totalReplyBytes (foldl (applySnapshot ovf) c (xs @ ys))) (labelValues K)))"
proof -
  have t: "m' = stepTotal ovf p q m ls \<Longrightarrow>
      m' = m ls \<or> (\<exists>d :: 64 word. 0 < d \<and> m' = Some (counterAddTo ovf (float64 (unat d))
                                            (withLabelValues m ls)))"
    for m' p q m ls
  proof -
    assume m: "m' = stepTotal ovf p q m ls"
    from stepTotal_touch [of ovf p q m ls] show ?thesis
    proof
      assume "stepTotal ovf p q m ls = m ls"
      with m show ?thesis by simp
    next
      assume "0 < delta p q \<and> stepTotal ovf p q m ls
          = Some (counterAddTo ovf (float64 (unat (delta p q))) (withLabelValues m ls))"
      with m have "0 < delta p q \<and> m'
          = Some (counterAddTo ovf (float64 (unat (delta p q))) (withLabelValues m ls))"
        by simp
      then show ?thesis by blast
    qed
  qed
  have a: "distinct (map fst cur) \<Longrightarrow>
      (totalSentPackets (applySnapshot ovf c cur) (labelValues K)
         = totalSentPackets c (labelValues K)
       \<or> (\<exists>d :: 64 word. 0 < d \<and> totalSentPackets (applySnapshot ovf c cur) (labelValues K)
             = Some (counterAddTo ovf (float64 (unat d))
                       (withLabelValues (totalSentPackets c) (labelValues K)))))
      \<and> (totalSentBytes (applySnapshot ovf c cur) (labelValues K)
         = totalSentBytes c (labelValues K)
       \<or> (\<exists>d :: 64 word. 0 < d \<and> totalSentBytes (applySnapshot ovf c cur) (labelValues K)
             = Some (counterAddTo ovf (float64 (unat d))
                       (withLabelValues (totalSentBytes c) (labelValues K)))))
      \<and> (totalReplyPackets (applySnapshot ovf c cur) (labelValues K)
         = totalReplyPackets c (labelValues K)
       \<or> (\<exists>d :: 64 word. 0 < d \<and> totalReplyPackets (applySnapshot ovf c cur) (labelValues K)
             = Some (counterAddTo ovf (float64 (unat d))
                       (withLabelValues (totalReplyPackets c) (labelValues K)))))
      \<and> (totalReplyBytes (applySnapshot ovf c cur) (labelValues K)
         = totalReplyBytes c (labelValues K)
       \<or> (\<exists>d :: 64 word. 0 < d \<and> totalReplyBytes (applySnapshot ovf c cur) (labelValues K)
             = Some (counterAddTo ovf (float64 (unat d))
                       (withLabelValues (totalReplyBytes c) (labelValues K)))))"
  proof (cases "map_of cur K")
    case None
    assume "distinct (map fst cur)"
    from applySnapshot_at [OF this, of ovf c K] None show ?thesis by simp
  next
    case (Some v)
    assume "distinct (map fst cur)"
    from applySnapshot_at [OF this, of ovf c K] Some
    show ?thesis by (simp add: t)
  qed
  show ?thesis
    using a runFits_mono [of ovf "foldl (applySnapshot ovf) c xs" ys K] by simp
qed

text \<open>From a new collector, \<open>snapA\<close> and then the key absent and back with 10 bytes: every
  delta fits, and the total of sent bytes is 50 after the first step and 60 after the
  third. The step for \<open>snapC\<close> after \<open>snapA\<close>, in which both sent counters of the key
  drop, leaves the series of sent packets untouched.\<close>

theorem totals_never_decrease_witness:
  "distinct (map fst snapC)
   \<and> totalSentPackets (applySnapshot 0 (applySnapshot 0 NewConntrackCollector snapA) snapC)
       (labelValues exampleKey)
     = totalSentPackets (applySnapshot 0 NewConntrackCollector snapA) (labelValues exampleKey)
   \<and> runFits 0 (foldl (applySnapshot 0) NewConntrackCollector [snapA]) [snapB, snapC] exampleKey
   \<and> counterValue (totalSentBytes (foldl (applySnapshot 0) NewConntrackCollector [snapA]))
       (labelValues exampleKey) = Finite 50
   \<and> counterValue (totalSentBytes (foldl (applySnapshot 0) NewConntrackCollector
         [snapA, snapB, snapC])) (labelValues exampleKey) = Finite 60
   \<and> f64_le
       (counterValue (totalSentBytes (foldl (applySnapshot 0) NewConntrackCollector [snapA]))
          (labelValues exampleKey))
       (counterValue (totalSentBytes (foldl (applySnapshot 0) NewConntrackCollector
          ([snapA] @ [snapB, snapC]))) (labelValues exampleKey))"
proof -
  have r: "runFits 0 (foldl (applySnapshot 0) NewConntrackCollector [snapA]) [snapB, snapC]
      exampleKey"
    by (simp add: snap_distinct stepFits_def snap_lookup prev_after after_snapA_snapB
          withLabelValues_def sentOnly_def zeroAgg_def delta_examples addFits_def
          round_examples unat_less_numeral)
  show ?thesis
    using totals_never_decrease [where ovf = 0 and c = "NewConntrackCollector"
            and xs = "[snapA]" and ys = "[snapB, snapC]" and K = exampleKey and cur = snapC] r
    by (simp add: snap_distinct after_snapA after_snapA_snapC after_snapA_snapB_snapC
          counterValue_Some published_examples)
qed

text \<open>
  Claim C1, as stated, fails when the integer part of a series, which is a 64-bit
  unsigned number, is given more than it can hold. From a new collector, \<open>snapHuge\<close>
  has \<open>2 ^ 63\<close> bytes sent for the example key, \<open>snapB\<close> does not have the key, and
  \<open>snapHuge\<close> again is measured against zero: the value published for the total of sent
  bytes is \<open>2 ^ 63\<close> after the second step and 0 after the third.
\<close>

theorem totals_never_decrease_counterexample:
  "counterValue (totalSentBytes (foldl (applySnapshot 0) NewConntrackCollector [snapHuge]))
     (labelValues exampleKey) = Finite (2 ^ 63)
   \<and> counterValue (totalSentBytes (foldl (applySnapshot 0) NewConntrackCollector
        [snapHuge, snapB])) (labelValues exampleKey) = Finite (2 ^ 63)
   \<and> counterValue (totalSentBytes (foldl (applySnapshot 0) NewConntrackCollector
        [snapHuge, snapB, snapHuge])) (labelValues exampleKey) = Finite 0
   \<and> \<not> f64_le
         (counterValue (totalSentBytes (foldl (applySnapshot 0) NewConntrackCollector
            [snapHuge, snapB])) (labelValues exampleKey))
         (counterValue (totalSentBytes (foldl (applySnapshot 0) NewConntrackCollector
            [snapHuge, snapB, snapHuge])) (labelValues exampleKey))"
  by (simp add: after_snapHuge after_snapHuge_snapB after_snapHuge_snapB_snapHuge
        counterValue_Some published_examples published_huge)

text \<open>
  Claim C2, as the code has it. After any snapshot \<open>s1\<close> (one in which the key \<open>K\<close> has 50
  bytes sent, say), let \<open>K\<close> be absent from the snapshot \<open>s2\<close> of a cycle and be again in
  the snapshot \<open>s3\<close> of the next (with 10 bytes sent, say). Then the step for \<open>s2\<close>
  deletes \<open>K\<close> from the previous snapshot, and the step for \<open>s3\<close> measures \<open>K\<close> against
  zero: what it gives to the total of sent bytes of \<open>K\<close> is the value \<open>s3\<close> has for it (10,
  not 60 and not a negative amount), and up to \<open>2 ^ 53\<close> that value is added as it is
  to the integer part of the series. The published total rises by exactly that value
  when the result is at most \<open>2 ^ 53\<close>, the range in which float64 is exact.
\<close>

theorem reappearance_resets_baseline:
  assumes "distinct (map fst s2)" and "distinct (map fst s3)"
    and "map_of s2 K = None" and "map_of s3 K = Some v3"
  shows "map_of (prev (applySnapshot ovf (applySnapshot ovf c s1) s2)) K = None
     \<and> totalSentBytes
          (applySnapshot ovf (applySnapshot ovf (applySnapshot ovf c s1) s2) s3) (labelValues K)
        = stepTotal ovf 0 (SentBytes v3)
            (totalSentBytes (applySnapshot ovf (applySnapshot ovf c s1) s2)) (labelValues K)
     \<and> (unat (SentBytes v3) \<le> 2 ^ 53 \<longrightarrow>
          withLabelValues (totalSentBytes
              (applySnapshot ovf (applySnapshot ovf (applySnapshot ovf c s1) s2) s3))
            (labelValues K)
          = (withLabelValues (totalSentBytes (applySnapshot ovf (applySnapshot ovf c s1) s2))
               (labelValues K))
             \<lparr>valInt := valInt (withLabelValues
                  (totalSentBytes (applySnapshot ovf (applySnapshot ovf c s1) s2))
                  (labelValues K)) + SentBytes v3\<rparr>)
     \<and> (counterValue (totalSentBytes (applySnapshot ovf (applySnapshot ovf c s1) s2))
            (labelValues K) = Finite t
          \<and> t + unat (SentBytes v3) \<le> 2 ^ 53 \<longrightarrow>
          counterValue (totalSentBytes
              (applySnapshot ovf (applySnapshot ovf (applySnapshot ovf c s1) s2) s3))
            (labelValues K) = Finite (t + unat (SentBytes v3)))"
proof -
  let ?c2 = "applySnapshot ovf (applySnapshot ovf c s1) s2"
  let ?c3 = "applySnapshot ovf ?c2 s3"
  let ?cnt = "withLabelValues (totalSentBytes ?c2) (labelValues K)"
  have p: "map_of (prev ?c2) K = None"
    using assms(1,3) by (simp add: applySnapshot_prev)
  then have z: "lookupAgg (prev ?c2) K = zeroAgg"
    by (simp add: lookupAgg_def)
  have s: "totalSentBytes ?c3 (labelValues K)
      = stepTotal ovf 0 (SentBytes v3) (totalSentBytes ?c2) (labelValues K)"
    using applySnapshot_at [OF assms(2), of ovf ?c2 K] assms(4)
    by (simp add: z zeroAgg_def)
  have d: "delta 0 (SentBytes v3) = SentBytes v3" by (simp add: delta_def)
  have e: "withLabelValues (totalSentBytes ?c3) (labelValues K)
      = ?cnt\<lparr>valInt := valInt ?cnt + SentBytes v3\<rparr>"
    if "unat (SentBytes v3) \<le> 2 ^ 53"
  proof (cases "SentBytes v3 = 0")
    case True
    with s d have "totalSentBytes ?c3 (labelValues K) = totalSentBytes ?c2 (labelValues K)"
      by (simp add: stepTotal_def)
    with True show ?thesis by (simp add: withLabelValues_def)
  next
    case False
    then have "0 < SentBytes v3" by (simp add: word_greater_zero_iff)
    with s d have "totalSentBytes ?c3 (labelValues K)
        = Some (counterAddTo ovf (float64 (unat (SentBytes v3))) ?cnt)"
      by (simp add: stepTotal_def)
    then show ?thesis
      by (simp add: withLabelValues_def counterAddTo_exact [OF that])
  qed
  have f: "counterValue (totalSentBytes ?c3) (labelValues K) = Finite (t + unat (SentBytes v3))"
    if g: "counterValue (totalSentBytes ?c2) (labelValues K) = Finite t"
      and b: "t + unat (SentBytes v3) \<le> 2 ^ 53"
  proof -
    from b have "unat (SentBytes v3) \<le> 2 ^ 53" by simp
    then have "counterValue (totalSentBytes ?c3) (labelValues K)
        = counterGet (?cnt\<lparr>valInt := valInt ?cnt + SentBytes v3\<rparr>)"
      using e by (simp add: counterValue_def)
    moreover from g have "counterGet ?cnt = Finite t" by (simp add: counterValue_def)
    ultimately show ?thesis using counterGet_exact [OF _ b] by simp
  qed
  show ?thesis using p s e f by blast
qed

text \<open>With 50 bytes in \<open>snapA\<close>, the key absent from \<open>snapB\<close> and 10 bytes in \<open>snapC\<close>,
  from a new collector: the total is 50 before the key comes back and 60 after.\<close>

theorem reappearance_resets_baseline_witness:
  "distinct (map fst snapB) \<and> distinct (map fst snapC)
   \<and> map_of snapA exampleKey = Some (sentOnly 100 50)
   \<and> map_of snapB exampleKey = None
   \<and> map_of snapC exampleKey = Some (sentOnly 40 10)
   \<and> unat (SentBytes (sentOnly 40 10)) = 10
   \<and> counterValue
        (totalSentBytes (applySnapshot 0 (applySnapshot 0 NewConntrackCollector snapA) snapB))
        (labelValues exampleKey) = Finite 50
   \<and> map_of (prev (applySnapshot 0 (applySnapshot 0 NewConntrackCollector snapA) snapB))
        exampleKey = None
   \<and> counterValue (totalSentBytes
         (applySnapshot 0 (applySnapshot 0 (applySnapshot 0 NewConntrackCollector snapA) snapB)
            snapC))
        (labelValues exampleKey) = Finite 60"
proof -
  have b: "counterValue
        (totalSentBytes (applySnapshot 0 (applySnapshot 0 NewConntrackCollector snapA) snapB))
        (labelValues exampleKey) = Finite 50"
    by (simp add: counterValue_Some after_snapA_snapB published_examples)
  show ?thesis
    using reappearance_resets_baseline [where ?s1.0 = snapA and ?s2.0 = snapB and ?s3.0 = snapC
            and K = exampleKey and ?v3.0 = "sentOnly 40 10" and c = NewConntrackCollector
            and ovf = 0 and t = 50] b
    by (simp add: snap_distinct snap_lookup sentOnly_def)
qed

text \<open>
  Claim C2, as stated, fails beyond \<open>2 ^ 53\<close>, where the published value of a series is
  the float64 nearest to its integer part. From a new collector, \<open>snapBig\<close> brings the
  total of sent bytes of the example key to \<open>2 ^ 54\<close>; then the key has 50 bytes in
  \<open>snapA\<close>, is absent from \<open>snapB\<close> and has 10 bytes in \<open>snapC\<close>. The published total is
  \<open>2 ^ 54\<close> before the last step and \<open>2 ^ 54 + 8\<close> after it: it rises by 8, not by 10.
\<close>

theorem reappearance_resets_baseline_counterexample:
  "map_of snapA exampleKey = Some (sentOnly 100 50)
   \<and> map_of snapB exampleKey = None
   \<and> map_of snapC exampleKey = Some (sentOnly 40 10)
   \<and> counterValue (totalSentBytes (foldl (applySnapshot 0) NewConntrackCollector
        [snapBig, snapA, snapB])) (labelValues exampleKey) = Finite (2 ^ 54)
   \<and> counterValue (totalSentBytes (foldl (applySnapshot 0) NewConntrackCollector
        [snapBig, snapA, snapB, snapC])) (labelValues exampleKey) = Finite (2 ^ 54 + 8)
   \<and> counterValue (totalSentBytes (foldl (applySnapshot 0) NewConntrackCollector
        [snapBig, snapA, snapB, snapC])) (labelValues exampleKey) \<noteq> Finite (2 ^ 54 + 10)"
  by (simp add: snap_lookup after_snapBig_snapA_snapB after_snapBig_snapA_snapB_snapC
        counterValue_Some published_big)

text \<open>
  Claim C3. \<open>delta\<close> is 0 whenever the current value is at most the previous one, for
  instance from 100 to 40, and its value is the difference of the two numbers cut at
  0, so the subtraction never wraps around. A key of the snapshot whose counter is at
  most its value in the previous snapshot leaves the total of that counter as it was,
  for each of the four counters.
\<close>

theorem regression_yields_zero_delta:
  "(cur \<le> prv \<longrightarrow> delta prv cur = 0)
   \<and> unat (delta prv cur) = unat cur - unat prv
   \<and> (distinct (map fst snap) \<and> map_of snap K = Some v \<longrightarrow>
        (SentPackets v \<le> SentPackets (lookupAgg (prev c) K) \<longrightarrow>
           totalSentPackets (applySnapshot ovf c snap) (labelValues K)
             = totalSentPackets c (labelValues K))
        \<and> (SentBytes v \<le> SentBytes (lookupAgg (prev c) K) \<longrightarrow>
           totalSentBytes (applySnapshot ovf c snap) (labelValues K)
             = totalSentBytes c (labelValues K))
        \<and> (ReplyPackets v \<le> ReplyPackets (lookupAgg (prev c) K) \<longrightarrow>
           totalReplyPackets (applySnapshot ovf c snap) (labelValues K)
             = totalReplyPackets c (labelValues K))
        \<and> (ReplyBytes v \<le> ReplyBytes (lookupAgg (prev c) K) \<longrightarrow>
           totalReplyBytes (applySnapshot ovf c snap) (labelValues K)
             = totalReplyBytes c (labelValues K)))"
proof -
  have z: "q \<le> p \<Longrightarrow> delta p q = 0" for p q :: "64 word"
    by (auto simp: delta_def)
  have s: "q \<le> p \<Longrightarrow> stepTotal ovf p q m l = m l" for p q :: "64 word" and m l
    by (simp add: stepTotal_def z)
  show ?thesis
    by (simp add: z delta_unat applySnapshot_at s)
qed

text \<open>From 100 packets in \<open>snapA\<close> to 40 in \<open>snapC\<close>: the total stays at 100.\<close>

theorem regression_yields_zero_delta_witness:
  "delta 100 40 = 0
   \<and> unat (delta 100 40) = 0
   \<and> map_of snapC exampleKey = Some (sentOnly 40 10)
   \<and> SentPackets (lookupAgg (prev (applySnapshot 0 NewConntrackCollector snapA)) exampleKey) = 100
   \<and> totalSentPackets (applySnapshot 0 NewConntrackCollector snapA) (labelValues exampleKey)
       = Some \<lparr>valBits = Finite 0, valInt = 100\<rparr>
   \<and> totalSentPackets (applySnapshot 0 (applySnapshot 0 NewConntrackCollector snapA) snapC)
       (labelValues exampleKey) = Some \<lparr>valBits = Finite 0, valInt = 100\<rparr>"
  using regression_yields_zero_delta [where cur = 40 and prv = 100 and snap = snapC
          and K = exampleKey and v = "sentOnly 40 10" and ovf = 0
          and c = "applySnapshot 0 NewConntrackCollector snapA"]
  by (simp add: after_snapA prev_after snap_distinct snap_lookup sentOnly_def)

text \<open>
  Claim C4. When no line of the input is accepted by the parser (every line that the
  scanner delivers is blank or rejected), \<open>parseAndAggregate\<close> fails with an error, and
  \<open>UpdateOnce\<close> returns that error with the collector as it was given: gauges,
  totals, previous snapshot and seen keys are all unchanged.
\<close>

theorem empty_input_fails:
  assumes "\<forall>t \<in> set (scanTokens raw). ParseLine (TrimSpace t) = None"
  shows "\<exists>err. parseAndAggregate raw = Inl err \<and> UpdateOnce ovf (Inr raw) c = (Some err, c)"
proof -
  have "aggLoop (scanTokens raw) ([], False) = ([], False)"
    using assms by (rule aggLoop_rejected)
  then show ?thesis
    by (simp add: parseAndAggregate_def UpdateOnce_def split: option.splits)
qed

text \<open>The text \<open>exampleGarbage\<close>, given to a collector that has published \<open>snapA\<close>: the
  error is the one for no entries and the collector is returned as it was.\<close>

theorem empty_input_fails_witness:
  "scanTokens exampleGarbage = [''# no entries'', [CHR 0x20, CHR 0x20, CHR 0x20], []]
   \<and> ParseLine (TrimSpace ''# no entries'') = None
   \<and> ParseLine (TrimSpace [CHR 0x20, CHR 0x20, CHR 0x20]) = None
   \<and> ParseLine (TrimSpace []) = None
   \<and> parseAndAggregate exampleGarbage = Inl NoEntries
   \<and> UpdateOnce 0 (Inr exampleGarbage) (applySnapshot 0 NewConntrackCollector snapA)
       = (Some NoEntries, applySnapshot 0 NewConntrackCollector snapA)"
proof -
  have h: "\<forall>t \<in> set (scanTokens exampleGarbage). ParseLine (TrimSpace t) = None"
    by (simp add: garbage_tokens garbage_rejected)
  show ?thesis
    using empty_input_fails [OF h, where ovf = 0
            and c = "applySnapshot 0 NewConntrackCollector snapA"]
    by (simp add: garbage_tokens garbage_rejected garbage_fails)
qed

text \<open>
  Claim C5, as the code has it. In a reconciliation step the keys of the previous
  snapshot become exactly the keys of the current snapshot: it gains the keys that are
  new to it and loses its keys that the current snapshot does not have, so its size is
  that of the current snapshot. The set of seen keys becomes its union with the keys of
  the current snapshot: it gains the keys never seen before and loses nothing. A cycle
  that fails changes neither.
\<close>

theorem reconciliation_state_step:
  "fst ` set (prev (applySnapshot ovf c cur)) = fst ` set cur
   \<and> card (fst ` set (prev (applySnapshot ovf c cur))) + card (fst ` set (prev c) - fst ` set cur)
       = card (fst ` set (prev c)) + card (fst ` set cur - fst ` set (prev c))
   \<and> card (fst ` set (prev (applySnapshot ovf c cur))) \<le> length cur
   \<and> seen (applySnapshot ovf c cur) = seen c \<union> fst ` set cur
   \<and> (finite (seen c) \<longrightarrow>
        card (seen (applySnapshot ovf c cur)) = card (seen c) + card (fst ` set cur - seen c))
   \<and> (UpdateOnce ovf r c = (Some err, c') \<longrightarrow> prev c' = prev c \<and> seen c' = seen c)"
proof -
  let ?A = "fst ` set cur" and ?P = "fst ` set (prev c)"
  have "card (?A \<union> (?P - ?A)) = card ?A + card (?P - ?A)"
    by (rule card_Un_disjoint) auto
  moreover have "card (?P \<union> (?A - ?P)) = card ?P + card (?A - ?P)"
    by (rule card_Un_disjoint) auto
  moreover have "?A \<union> (?P - ?A) = ?P \<union> (?A - ?P)" by blast
  ultimately have c1: "card ?A + card (?P - ?A) = card ?P + card (?A - ?P)" by simp
  have c2: "card ?A \<le> length cur"
    using card_image_le [of "set cur" fst] card_length [of cur] by simp
  have c3: "card (seen c \<union> ?A) = card (seen c) + card (?A - seen c)" if "finite (seen c)"
  proof -
    have "card (seen c \<union> (?A - seen c)) = card (seen c) + card (?A - seen c)"
      using that by (intro card_Un_disjoint) auto
    then show ?thesis by simp
  qed
  have c4: "prev c' = prev c \<and> seen c' = seen c" if "UpdateOnce ovf r c = (Some err, c')"
    using that by (auto simp: UpdateOnce_def split: sum.splits)
  show ?thesis
    using c1 c2 c3 c4 by (simp add: applySnapshot_keys applySnapshot_seen)
qed

text \<open>After \<open>snapA\<close>, the step for \<open>snapB\<close>: the previous snapshot holds the other key
  alone, the set of seen keys holds both.\<close>

theorem reconciliation_state_step_witness:
  "fst ` set (prev (applySnapshot 0 (applySnapshot 0 NewConntrackCollector snapA) snapB)) = {otherKey}
   \<and> fst ` set (prev (applySnapshot 0 NewConntrackCollector snapA)) = {exampleKey}
   \<and> seen (applySnapshot 0 NewConntrackCollector snapA) = {exampleKey}
   \<and> finite (seen (applySnapshot 0 NewConntrackCollector snapA))
   \<and> seen (applySnapshot 0 (applySnapshot 0 NewConntrackCollector snapA) snapB) = {exampleKey, otherKey}
   \<and> card (seen (applySnapshot 0 (applySnapshot 0 NewConntrackCollector snapA) snapB)) = 2
   \<and> UpdateOnce 0 (Inr exampleGarbage) (applySnapshot 0 NewConntrackCollector snapA)
       = (Some NoEntries, applySnapshot 0 NewConntrackCollector snapA)"
  using reconciliation_state_step [where ovf = 0
          and c = "applySnapshot 0 NewConntrackCollector snapA"
          and cur = snapB and r = "Inr exampleGarbage" and err = NoEntries
          and c' = "applySnapshot 0 NewConntrackCollector snapA"]
        reconciliation_state_step [where ovf = 0 and c = NewConntrackCollector and cur = snapA]
        keys_ne
  by (simp add: snapA_def snapB_def New_simps insert_commute UpdateOnce_def garbage_fails)

text \<open>
  Claim C5, as stated, fails for the set of seen keys: it never shrinks. After \<open>snapA\<close>
  it holds the example key; the step for \<open>snapB\<close>, which has one new key and does not
  have the example key, leaves two keys in it, where growing by the one new key and
  shrinking by the one absent key would leave one.
\<close>

theorem reconciliation_state_step_counterexample:
  "seen (applySnapshot 0 NewConntrackCollector snapA) = {exampleKey}
   \<and> map_of snapB exampleKey = None
   \<and> exampleKey \<in> seen (applySnapshot 0 (applySnapshot 0 NewConntrackCollector snapA) snapB)
   \<and> card (seen (applySnapshot 0 (applySnapshot 0 NewConntrackCollector snapA) snapB))
       \<noteq> card (seen (applySnapshot 0 NewConntrackCollector snapA))
         + card (fst ` set snapB - seen (applySnapshot 0 NewConntrackCollector snapA))
         - card (seen (applySnapshot 0 NewConntrackCollector snapA) - fst ` set snapB)"
  using keys_ne
  by (simp add: applySnapshot_seen snapA_def snapB_def New_simps)

text \<open>
  Claim C6. After a reconciliation step with the current snapshot \<open>cur\<close> (a map: its keys
  are distinct), the previous snapshot is \<open>cur\<close> as a map: a key absent from \<open>cur\<close> is
  absent from it, and a key of \<open>cur\<close> has the value \<open>cur\<close> gives it. The same holds after
  a successful \<open>UpdateOnce\<close> for the snapshot aggregated from the input.
\<close>

theorem previous_snapshot_replaced:
  "(distinct (map fst cur) \<longrightarrow>
      map_of (prev (applySnapshot ovf c cur)) = map_of cur
      \<and> fst ` set (prev (applySnapshot ovf c cur)) = fst ` set cur
      \<and> lookupAgg (prev (applySnapshot ovf c cur)) k = lookupAgg cur k)
   \<and> (UpdateOnce ovf (Inr raw) c = (None, c') \<longrightarrow>
        (\<exists>snap. parseAndAggregate raw = Inr snap \<and> map_of (prev c') = map_of snap))"
proof -
  have "\<exists>snap. parseAndAggregate raw = Inr snap \<and> map_of (prev c') = map_of snap"
    if "UpdateOnce ovf (Inr raw) c = (None, c')"
  proof (cases "parseAndAggregate raw")
    case (Inl e)
    with that show ?thesis by (simp add: UpdateOnce_def)
  next
    case (Inr snap)
    with that have "c' = applySnapshot ovf c snap" by (simp add: UpdateOnce_def)
    with Inr parseAndAggregate_distinct [OF Inr] show ?thesis
      by (simp add: applySnapshot_prev)
  qed
  then show ?thesis
    by (simp add: applySnapshot_prev applySnapshot_keys applySnapshot_lookup)
qed

text \<open>After \<open>snapA\<close>, the step for \<open>snapB\<close> leaves the example key out and keeps the value
  of the other key; and \<open>UpdateOnce\<close> on the first example text stores its values.\<close>

theorem previous_snapshot_replaced_witness:
  "map_of (prev (applySnapshot 0 NewConntrackCollector snapA)) exampleKey = Some (sentOnly 100 50)
   \<and> map_of (prev (applySnapshot 0 (applySnapshot 0 NewConntrackCollector snapA) snapB)) exampleKey = None
   \<and> map_of (prev (applySnapshot 0 (applySnapshot 0 NewConntrackCollector snapA) snapB)) otherKey
       = Some (sentOnly 1 1)
   \<and> fst (UpdateOnce 0 (Inr exampleText1) NewConntrackCollector) = None
   \<and> map_of (prev (snd (UpdateOnce 0 (Inr exampleText1) NewConntrackCollector))) exampleKey
       = Some \<lparr>SentPackets = 10, SentBytes = 1000, ReplyPackets = 8, ReplyBytes = 900\<rparr>"
proof -
  have u: "UpdateOnce 0 (Inr exampleText1) NewConntrackCollector =
      (None, applySnapshot 0 NewConntrackCollector
         [(exampleKey, \<lparr>SentPackets = 10, SentBytes = 1000, ReplyPackets = 8, ReplyBytes = 900\<rparr>)])"
    by (simp add: UpdateOnce_def aggregate_exampleText1)
  show ?thesis
    using previous_snapshot_replaced [where cur = snapA and ovf = 0
            and c = NewConntrackCollector and k = exampleKey and raw = exampleText1
            and c' = "applySnapshot 0 NewConntrackCollector
               [(exampleKey, \<lparr>SentPackets = 10, SentBytes = 1000, ReplyPackets = 8, ReplyBytes = 900\<rparr>)]"]
          previous_snapshot_replaced [where cur = snapB and ovf = 0
            and c = "applySnapshot 0 NewConntrackCollector snapA"]
          keys_ne
    by (simp add: u snap_distinct aggregate_exampleText1) (simp add: snapA_def snapB_def)
qed

text \<open>The two lines without a destination port, parsed.\<close>

lemma pl_fields:
  "Fields portlessLine =
     [''ipv4'', ''2'', ''icmp'', ''1'', ''29'', ''src=10.0.0.5'', ''dst=10.0.0.9'',
      ''packets=3'', ''bytes=252'']"
  "Fields sportOnlyLine =
     [''ipv4'', ''2'', ''icmp'', ''1'', ''29'', ''src=10.0.0.5'', ''dst=10.0.0.9'', ''sport=7'',
      ''packets=3'', ''bytes=252'']"
  unfolding portlessLine_def sportOnlyLine_def by code_simp+

lemma pl_trim:
  "TrimSpace portlessLine = portlessLine"
  "TrimSpace sportOnlyLine = sportOnlyLine"
  unfolding portlessLine_def sportOnlyLine_def by code_simp+

lemma pl_ne: "portlessLine \<noteq> []" "sportOnlyLine \<noteq> []"
  by (simp_all add: portlessLine_def sportOnlyLine_def)

lemma pl_collect:
  "fold collectField
     [''ipv4'', ''2'', ''icmp'', ''1'', ''29'', ''src=10.0.0.5'', ''dst=10.0.0.9'',
      ''packets=3'', ''bytes=252''] noOccurrences
   = \<lparr>srcs = [''10.0.0.5''], dsts = [''10.0.0.9''], sports = [], dports = [],
      packets = [3], bytes = [252]\<rparr>"
  "fold collectField
     [''ipv4'', ''2'', ''icmp'', ''1'', ''29'', ''src=10.0.0.5'', ''dst=10.0.0.9'', ''sport=7'',
      ''packets=3'', ''bytes=252''] noOccurrences
   = \<lparr>srcs = [''10.0.0.5''], dsts = [''10.0.0.9''], sports = [''7''], dports = [],
      packets = [3], bytes = [252]\<rparr>"
  by (simp_all add: collectField_def Cut_def noOccurrences_def parseUint64_def ParseUint_def
        digitOf_def Let_def)

lemma pl_parse:
  "ParseLine portlessLine = Some (portlessEntry [])"
  "ParseLine sportOnlyLine = Some (portlessEntry ''7'')"
  using pl_collect
  by (simp_all add: ParseLine_def pl_trim pl_ne pl_fields Let_def nthOr_def portlessEntry_def)

lemma pl_keys:
  "buildKey (portlessEntry []) =
     \<lparr>Src = ''10.0.0.5'', Dst = ''10.0.0.9'', L3 = ''ipv4'', L4 = ''icmp'', DPort = ''0'',
      L7 = ''na''\<rparr>"
  "buildKey (portlessEntry ''7'') =
     \<lparr>Src = ''10.0.0.5'', Dst = ''10.0.0.9'', L3 = ''ipv4'', L4 = ''icmp'', DPort = [],
      L7 = ''unknown''\<rparr>"
  by (simp_all add: buildKey_def portlessEntry_def HasPorts_def L7ProtocolFromDPort_def Let_def)

text \<open>
  Claim C7, as the code has it. Two records that are identical except for the source
  port of the original tuple, and of which both have a port or neither has
  (\<open>HasPorts\<close> agrees; it does whenever there is a destination port), have the same
  key. The map that \<open>parseAndAggregate\<close> returns gives a key the component-wise sum, in
  64-bit arithmetic, of the counters of all records of the input with that key, and
  no value to a key that no record has; for an input of two records with one key it
  is that key alone with the sum of the two.
\<close>

theorem key_collapse:
  "(HasPorts (e\<lparr>Original := (Original e)\<lparr>Sport := sp\<rparr>\<rparr>) = HasPorts e \<longrightarrow>
      buildKey (e\<lparr>Original := (Original e)\<lparr>Sport := sp\<rparr>\<rparr>) = buildKey e)
   \<and> (parseAndAggregate raw = Inr out \<longrightarrow>
        map_of out k =
          (if filter (\<lambda>x. buildKey x = k) (parsedEntries raw) = [] then None
           else Some (sumAgg (filter (\<lambda>x. buildKey x = k) (parsedEntries raw))))
        \<and> (parsedEntries raw = [e1, e2] \<and> buildKey e1 = buildKey e2 \<longrightarrow>
             out = [(buildKey e1, sumAgg [e1, e2])]))"
proof -
  have "buildKey (e\<lparr>Original := (Original e)\<lparr>Sport := sp\<rparr>\<rparr>) = buildKey e"
    if "HasPorts (e\<lparr>Original := (Original e)\<lparr>Sport := sp\<rparr>\<rparr>) = HasPorts e"
    using that by (simp add: buildKey_def Let_def)
  then show ?thesis
    using aggregate_sum [of raw out k] two_records [of raw out e1 e2] by blast
qed

text \<open>The two example lines, which differ in the source port only.\<close>

theorem key_collapse_witness:
  "exampleEntry ''51520''
     = (exampleEntry ''51514'')\<lparr>Original := (Original (exampleEntry ''51514''))\<lparr>Sport := ''51520''\<rparr>\<rparr>
   \<and> buildKey (exampleEntry ''51520'') = buildKey (exampleEntry ''51514'')
   \<and> parsedEntries exampleText2 = [exampleEntry ''51514'', exampleEntry ''51520'']
   \<and> parseAndAggregate exampleText2
       = Inr [(exampleKey, sumAgg [exampleEntry ''51514'', exampleEntry ''51520''])]
   \<and> sumAgg [exampleEntry ''51514'', exampleEntry ''51520'']
       = \<lparr>SentPackets = 20, SentBytes = 2000, ReplyPackets = 16, ReplyBytes = 1800\<rparr>"
proof -
  have e: "exampleEntry ''51520''
     = (exampleEntry ''51514'')\<lparr>Original := (Original (exampleEntry ''51514''))\<lparr>Sport := ''51520''\<rparr>\<rparr>"
    by (simp add: exampleEntry_def)
  have s: "sumAgg [exampleEntry ''51514'', exampleEntry ''51520'']
       = \<lparr>SentPackets = 20, SentBytes = 2000, ReplyPackets = 16, ReplyBytes = 1800\<rparr>"
    by (simp add: sumAgg_def ex_stats)
  have k: "buildKey (exampleEntry ''51520'') = buildKey (exampleEntry ''51514'')"
    by (simp add: ex_key)
  show ?thesis
    using key_collapse [where e = "exampleEntry ''51514''" and sp = "''51520''"
            and raw = exampleText2
            and out = "[(exampleKey, \<lparr>SentPackets = 20, SentBytes = 2000, ReplyPackets = 16,
                                     ReplyBytes = 1800\<rparr>)]"
            and k = exampleKey and ?e1.0 = "exampleEntry ''51514''"
            and ?e2.0 = "exampleEntry ''51520''"]
          e k s
    by (simp add: aggregate_exampleText2 parsed_exampleText2)
qed

text \<open>
  Claim C7, as stated, fails for a record without a destination port: the lines
  \<open>portlessLine\<close> and \<open>sportOnlyLine\<close> parse to records that are identical except for
  the source port of the original tuple, empty in the first, and the two keys differ.
\<close>

theorem key_collapse_counterexample:
  "ParseLine portlessLine = Some (portlessEntry [])
   \<and> ParseLine sportOnlyLine = Some (portlessEntry ''7'')
   \<and> portlessEntry ''7''
       = (portlessEntry [])\<lparr>Original := (Original (portlessEntry []))\<lparr>Sport := ''7''\<rparr>\<rparr>
   \<and> buildKey (portlessEntry ''7'') \<noteq> buildKey (portlessEntry [])"
  by (simp add: pl_parse pl_keys) (simp add: portlessEntry_def)

text \<open>
  Claim C8. Aggregating the example line, with or without a line feed after it, gives
  exactly one key, source 10.0.0.5, destination 93.184.216.34, ipv4, tcp, port 443,
  https, with 10 packets and 1000 bytes sent, 8 packets and 900 bytes in reply; with
  the second line, which differs in the source port only, the same key alone with 20,
  2000, 16 and 1800.
\<close>

theorem end_to_end_example:
  "parseAndAggregate exampleLine1 =
     Inr [(\<lparr>Src = ''10.0.0.5'', Dst = ''93.184.216.34'', L3 = ''ipv4'', L4 = ''tcp'',
            DPort = ''443'', L7 = ''https''\<rparr>,
           \<lparr>SentPackets = 10, SentBytes = 1000, ReplyPackets = 8, ReplyBytes = 900\<rparr>)]
   \<and> parseAndAggregate exampleText1 =
     Inr [(\<lparr>Src = ''10.0.0.5'', Dst = ''93.184.216.34'', L3 = ''ipv4'', L4 = ''tcp'',
            DPort = ''443'', L7 = ''https''\<rparr>,
           \<lparr>SentPackets = 10, SentBytes = 1000, ReplyPackets = 8, ReplyBytes = 900\<rparr>)]
   \<and> parseAndAggregate exampleText2 =
     Inr [(\<lparr>Src = ''10.0.0.5'', Dst = ''93.184.216.34'', L3 = ''ipv4'', L4 = ''tcp'',
            DPort = ''443'', L7 = ''https''\<rparr>,
           \<lparr>SentPackets = 20, SentBytes = 2000, ReplyPackets = 16, ReplyBytes = 1800\<rparr>)]"
  using aggregate_exampleLine1 aggregate_exampleText1 aggregate_exampleText2
  by (simp add: exampleKey_def)

text \<open>
  Claim C9. A record with no ports (the source and the destination port of the
  original tuple both empty) gets the key with destination port \<open>"0"\<close> and service name
  \<open>"na"\<close>, whatever its layer-4 protocol is, and the aggregator stores its counters under
  that key.
\<close>

theorem portless_sentinel:
  assumes "Sport (Original e) = []" and "Dport (Original e) = []"
  shows "DPort (buildKey (e\<lparr>L4Proto := l4\<rparr>)) = ''0''
         \<and> L7 (buildKey (e\<lparr>L4Proto := l4\<rparr>)) = ''na''
         \<and> L4 (buildKey (e\<lparr>L4Proto := l4\<rparr>)) = l4
         \<and> map_of (addEntry (e\<lparr>L4Proto := l4\<rparr>) out) (buildKey (e\<lparr>L4Proto := l4\<rparr>))
             = Some (plusEntry (lookupAgg out (buildKey (e\<lparr>L4Proto := l4\<rparr>))) e)"
  using assms
  by (simp add: map_of_addEntry) (simp add: buildKey_def Let_def HasPorts_def plusEntry_def)

text \<open>The record of \<open>portlessLine\<close>, as icmp and as tcp.\<close>

theorem portless_sentinel_witness:
  "ParseLine portlessLine = Some (portlessEntry [])
   \<and> Sport (Original (portlessEntry [])) = []
   \<and> Dport (Original (portlessEntry [])) = []
   \<and> DPort (buildKey (portlessEntry [])) = ''0''
   \<and> L7 (buildKey (portlessEntry [])) = ''na''
   \<and> DPort (buildKey ((portlessEntry [])\<lparr>L4Proto := ''tcp''\<rparr>)) = ''0''
   \<and> L7 (buildKey ((portlessEntry [])\<lparr>L4Proto := ''tcp''\<rparr>)) = ''na''"
  using portless_sentinel [of "portlessEntry []" "''tcp''" "[]"]
        portless_sentinel [of "portlessEntry []" "''icmp''" "[]"]
  by (simp add: pl_parse pl_keys) (simp add: portlessEntry_def)

text \<open>
  Claim C10. A record whose original tuple has a source port and no destination port
  has ports for \<open>HasPorts\<close>, so the substitution is not applied: its key has the empty
  string as destination port and \<open>"unknown"\<close> as service name.
\<close>

theorem sport_only_key:
  assumes "Sport (Original e) \<noteq> []" and "Dport (Original e) = []"
  shows "HasPorts e \<and> DPort (buildKey e) = [] \<and> L7 (buildKey e) = ''unknown''
         \<and> DPort (buildKey e) \<noteq> ''0'' \<and> L7 (buildKey e) \<noteq> ''na''"
  using assms
  by (simp add: buildKey_def Let_def HasPorts_def L7ProtocolFromDPort_def)

text \<open>The record of \<open>sportOnlyLine\<close>.\<close>

theorem sport_only_key_witness:
  "ParseLine sportOnlyLine = Some (portlessEntry ''7'')
   \<and> Sport (Original (portlessEntry ''7'')) = ''7''
   \<and> Dport (Original (portlessEntry ''7'')) = []
   \<and> HasPorts (portlessEntry ''7'')
   \<and> DPort (buildKey (portlessEntry ''7'')) = []
   \<and> L7 (buildKey (portlessEntry ''7'')) = ''unknown''"
  using sport_only_key [of "portlessEntry ''7''"]
  by (simp add: pl_parse pl_keys) (simp add: portlessEntry_def)

end
